theory Spec2Isabelle
  imports Complex_Main "HOL-Library.AList"
begin

text \<open>
  A shallow embedding of the clause-drafting agent: the ingestion of the source documents
  with their citation anchors, the constraint models, the validator of a generated
  output, the loop that drafts, validates and retries, and its projection to a stream of
  events. Each definition follows the function of the source that it names; a leading
  underscore of a Python name is dropped. What a run reads from outside (the settings,
  the document store, the language model, the clock) is a parameter, and the calls that a
  run makes are on record in the state it returns.
\<close>

section \<open>Python strings\<close>

text \<open>
  A Python \<open>str\<close> is modelled as a \<open>string\<close>, one \<open>char\<close> per code point; the model
  covers the texts whose code points are below 256. \<open>len\<close> is \<open>length\<close>.
\<close>

definition NL :: char where
  "NL = CHR 0x0A"

text \<open>\<open>str.isspace\<close> on one code point below 256; the class \<open>\<bsol>s\<close> of \<open>re\<close> is the same set.\<close>

definition is_space :: "char \<Rightarrow> bool" where
  "is_space c = (c \<in> set [CHR 0x09, CHR 0x0A, CHR 0x0B, CHR 0x0C, CHR 0x0D,
                            CHR 0x1C, CHR 0x1D, CHR 0x1E, CHR 0x1F, CHR 0x20,
                            CHR 0x85, CHR 0xA0])"

text \<open>\<open>s.lstrip()\<close>, \<open>s.rstrip()\<close> and \<open>s.strip()\<close>.\<close>

definition lstrip :: "string \<Rightarrow> string" where
  "lstrip s = dropWhile is_space s"

definition rstrip :: "string \<Rightarrow> string" where
  "rstrip s = rev (dropWhile is_space (rev s))"

definition strip :: "string \<Rightarrow> string" where
  "strip s = rstrip (lstrip s)"

text \<open>\<open>s.split(sep)\<close> for a separator of one character: empty pieces are kept.\<close>

fun split_on :: "char \<Rightarrow> string \<Rightarrow> string list" where
  "split_on sep [] = [[]]"
| "split_on sep (c # cs) =
     (if c = sep then [] # split_on sep cs
      else (case split_on sep cs of
              [] \<Rightarrow> [[c]]
            | p # ps \<Rightarrow> (c # p) # ps))"

text \<open>\<open>s.split()\<close>: the maximal runs of characters that are not whitespace.\<close>

fun split_ws_acc :: "string \<Rightarrow> string \<Rightarrow> string list" where
  "split_ws_acc cur [] = (if cur = [] then [] else [rev cur])"
| "split_ws_acc cur (c # cs) =
     (if is_space c then (if cur = [] then split_ws_acc [] cs else rev cur # split_ws_acc [] cs)
      else split_ws_acc (c # cur) cs)"

definition split_ws :: "string \<Rightarrow> string list" where
  "split_ws s = split_ws_acc [] s"

text \<open>\<open>sep.join(parts)\<close>.\<close>

fun join :: "string \<Rightarrow> string list \<Rightarrow> string" where
  "join sep [] = []"
| "join sep [p] = p"
| "join sep (p # q # ps) = p @ sep @ join sep (q # ps)"

text \<open>\<open>s.startswith(p)\<close> and \<open>p in s\<close>.\<close>

definition startswith :: "string \<Rightarrow> string \<Rightarrow> bool" where
  "startswith s p = (take (length p) s = p)"

fun contains :: "string \<Rightarrow> string \<Rightarrow> bool" where
  "contains [] p = (p = [])"
| "contains (c # cs) p = (startswith (c # cs) p \<or> contains cs p)"

text \<open>
  \<open>s.lower()\<close> and \<open>s.upper()\<close> on the code points below 256: the ASCII letters and
  the Latin-1 letters \<open>0xC0..0xDE\<close> (but \<open>0xD7\<close>) change case; \<open>upper\<close> is only applied to
  the values of \<open>RiskLevel\<close>, which are ASCII.
\<close>

definition lower_char :: "char \<Rightarrow> char" where
  "lower_char c =
     (let n = (of_char c :: nat)
      in if (65 \<le> n \<and> n \<le> 90) \<or> (192 \<le> n \<and> n \<le> 222 \<and> n \<noteq> 215)
         then char_of (n + 32) else c)"

definition lower :: "string \<Rightarrow> string" where
  "lower s = map lower_char s"

definition upper_char :: "char \<Rightarrow> char" where
  "upper_char c =
     (let n = (of_char c :: nat)
      in if 97 \<le> n \<and> n \<le> 122 then char_of (n - 32) else c)"

definition upper :: "string \<Rightarrow> string" where
  "upper s = map upper_char s"

text \<open>\<open>str(n)\<close> for an integer.\<close>

definition digit_char :: "nat \<Rightarrow> char" where
  "digit_char d = char_of (48 + d)"

fun str_nat_fuel :: "nat \<Rightarrow> nat \<Rightarrow> string" where
  "str_nat_fuel 0 n = [digit_char (n mod 10)]"
| "str_nat_fuel (Suc k) n =
     (if n < 10 then [digit_char n] else str_nat_fuel k (n div 10) @ [digit_char (n mod 10)])"

definition str_nat :: "nat \<Rightarrow> string" where
  "str_nat n = str_nat_fuel n n"

definition str_int :: "int \<Rightarrow> string" where
  "str_int i = (if i < 0 then CHR ''-'' # str_nat (nat (- i)) else str_nat (nat i))"


section \<open>The regular expressions of the source\<close>

text \<open>
  The fragment of Python's \<open>re\<close> that the fixed patterns of the source use: one-character
  classes, greedy repetition of a class, sequence, capturing groups, the anchors \<open>^\<close> and
  \<open>$\<close> under \<open>re.MULTILINE\<close>, and \<open>\<bsol>b\<close>. A matcher returns every way to match from a
  position, in the order in which the backtracking engine tries them, so the head of the
  list is the match that \<open>re\<close> reports.
\<close>

datatype cclass =
    Lit char          \<comment> \<open>a literal character\<close>
  | White             \<comment> \<open>\<open>\<bsol>s\<close>\<close>
  | NotChr char       \<comment> \<open>\<open>[^c]\<close>\<close>
  | Dot               \<comment> \<open>\<open>.\<close>: anything but a newline\<close>

fun cc :: "cclass \<Rightarrow> char \<Rightarrow> bool" where
  "cc (Lit a) c = (c = a)"
| "cc White c = is_space c"
| "cc (NotChr a) c = (c \<noteq> a)"
| "cc Dot c = (c \<noteq> NL)"

datatype regex =
    Atom cclass
  | Rep cclass nat "nat option"   \<comment> \<open>greedy \<open>{lo,hi}\<close>; \<open>None\<close> is no upper bound\<close>
  | Seq regex regex
  | Group nat regex
  | Bol                           \<comment> \<open>\<open>^\<close> under \<open>MULTILINE\<close>\<close>
  | Eol                           \<comment> \<open>\<open>$\<close> under \<open>MULTILINE\<close>\<close>
  | WordB                         \<comment> \<open>\<open>\<bsol>b\<close>\<close>

type_synonym caps = "(nat \<times> (nat \<times> nat)) list"

text \<open>\<open>\<bsol>w\<close> on the code points below 256 (\<open>str.isalnum\<close> or underscore).\<close>

definition is_word :: "char \<Rightarrow> bool" where
  "is_word c =
     (let n = (of_char c :: nat)
      in (48 \<le> n \<and> n \<le> 57) \<or> (65 \<le> n \<and> n \<le> 90) \<or> n = 95 \<or> (97 \<le> n \<and> n \<le> 122)
         \<or> n = 170 \<or> n = 178 \<or> n = 179 \<or> n = 181 \<or> n = 185 \<or> n = 186
         \<or> n = 188 \<or> n = 189 \<or> n = 190
         \<or> (192 \<le> n \<and> n \<noteq> 215 \<and> n \<noteq> 247))"

text \<open>
  Greedy repetition of a class over the rest of the text \<open>rest\<close>, which starts at
  position \<open>i\<close>: the end positions, longest first.
\<close>

fun rep :: "cclass \<Rightarrow> nat \<Rightarrow> nat option \<Rightarrow> string \<Rightarrow> nat \<Rightarrow> nat list" where
  "rep k lo hi [] i = (if lo = 0 then [i] else [])"
| "rep k lo hi (c # cs) i =
     (if cc k c \<and> hi \<noteq> Some 0
      then rep k (lo - 1) (map_option (\<lambda>h. h - 1) hi) cs (Suc i) else [])
     @ (if lo = 0 then [i] else [])"

fun rmatch :: "regex \<Rightarrow> string \<Rightarrow> nat \<times> caps \<Rightarrow> (nat \<times> caps) list" where
  "rmatch (Atom k) s (i, g) = (if i < length s \<and> cc k (s ! i) then [(Suc i, g)] else [])"
| "rmatch (Rep k lo hi) s (i, g) = map (\<lambda>e. (e, g)) (rep k lo hi (drop i s) i)"
| "rmatch (Seq a b) s st = concat (map (rmatch b s) (rmatch a s st))"
| "rmatch (Group n r) s (i, g) =
     map (\<lambda>(e, g'). (e, AList.update n (i, e) g')) (rmatch r s (i, g))"
| "rmatch Bol s (i, g) = (if i = 0 \<or> (i \<le> length s \<and> s ! (i - 1) = NL) then [(i, g)] else [])"
| "rmatch Eol s (i, g) = (if i = length s \<or> (i < length s \<and> s ! i = NL) then [(i, g)] else [])"
| "rmatch WordB s (i, g) =
     (if (0 < i \<and> i \<le> length s \<and> is_word (s ! (i - 1))) \<noteq> (i < length s \<and> is_word (s ! i))
      then [(i, g)] else [])"

text \<open>A literal piece of a pattern.\<close>

fun lit :: "string \<Rightarrow> regex" where
  "lit [] = Rep Dot 0 (Some 0)"
| "lit [c] = Atom (Lit c)"
| "lit (c # cs) = Seq (Atom (Lit c)) (lit cs)"

text \<open>A match object: \<open>m.start()\<close>, \<open>m.end()\<close> and the spans of its groups.\<close>

record rematch =
  m_start :: nat
  m_end :: nat
  m_groups :: caps

text \<open>\<open>m.group(n)\<close> of a group that took part in the match.\<close>

definition m_group :: "string \<Rightarrow> rematch \<Rightarrow> nat \<Rightarrow> string" where
  "m_group s m n =
     (case map_of (m_groups m) n of
        None \<Rightarrow> []
      | Some (a, b) \<Rightarrow> take (b - a) (drop a s))"

text \<open>
  \<open>pattern.finditer(s)\<close>: the matches that do not overlap, scanning from the left; after
  an empty match the scan moves on by one character.
\<close>

function finditer_from :: "regex \<Rightarrow> string \<Rightarrow> nat \<Rightarrow> rematch list" where
  "finditer_from r s p =
     (if length s < p then []
      else (case rmatch r s (p, []) of
              [] \<Rightarrow> finditer_from r s (Suc p)
            | (e, g) # _ \<Rightarrow>
                \<lparr>m_start = p, m_end = e, m_groups = g\<rparr>
                # finditer_from r s (if e \<le> p then Suc p else e)))"
  by pat_completeness auto
termination
  by (relation "measure (\<lambda>(r, s, p). Suc (length s) - p)") auto

definition finditer :: "regex \<Rightarrow> string \<Rightarrow> rematch list" where
  "finditer r s = finditer_from r s 0"

text \<open>\<open>re.search(pattern, s)\<close> is not \<open>None\<close>.\<close>

definition re_found :: "regex \<Rightarrow> string \<Rightarrow> bool" where
  "re_found r s = (finditer r s \<noteq> [])"

text \<open>\<open>pattern.sub("", s)\<close>: the text outside the matches.\<close>

fun cut_matches :: "string \<Rightarrow> nat \<Rightarrow> rematch list \<Rightarrow> string" where
  "cut_matches s p [] = drop p s"
| "cut_matches s p (m # ms) = take (m_start m - p) (drop p s) @ cut_matches s (m_end m) ms"

definition re_sub_empty :: "regex \<Rightarrow> string \<Rightarrow> string" where
  "re_sub_empty r s = cut_matches s 0 (finditer r s)"


section \<open>Document ingestion (\<open>services/ingestion.py\<close>)\<close>

text \<open>
  The fields of a record carry a prefix, since several classes of the source share the
  field names \<open>text\<close>, \<open>source_id\<close> and \<open>document_name\<close>.
\<close>

record Citation =
  cit_source_id :: string
  cit_text :: string
  cit_document_name :: string
  cit_section_heading :: string

text \<open>\<open>SOURCE_ID_PATTERN = re.compile(r"\<bsol>[SourceID:\<bsol>s*([^\<bsol>]]+)\<bsol>]")\<close>\<close>

definition SOURCE_ID_PATTERN :: regex where
  "SOURCE_ID_PATTERN =
     Seq (lit ''[SourceID:'')
       (Seq (Rep White 0 None)
         (Seq (Group 1 (Rep (NotChr (CHR '']'')) 1 None))
           (Atom (Lit (CHR '']'')))))"

text \<open>\<open>HEADING_PATTERN = re.compile(r"^(#{1,6})\<bsol>s+(.+)$", re.MULTILINE)\<close>\<close>

definition HEADING_PATTERN :: regex where
  "HEADING_PATTERN =
     Seq Bol
       (Seq (Group 1 (Rep (Lit (CHR ''#'')) 1 (Some 6)))
         (Seq (Rep White 1 None)
           (Seq (Group 2 (Rep Dot 1 None)) Eol)))"

text \<open>\<open>_extract_sections\<close>: the texts of the headings of level two.\<close>

definition extract_sections :: "string \<Rightarrow> string list" where
  "extract_sections content =
     map (\<lambda>m. strip (m_group content m 2))
       (filter (\<lambda>m. length (m_group content m 1) = 2) (finditer HEADING_PATTERN content))"

text \<open>
  \<open>_get_current_heading\<close>: the loop over the headings keeps the text of the last one that
  starts before \<open>position\<close> and leaves at the first one that does not.
\<close>

fun heading_loop :: "string \<Rightarrow> nat \<Rightarrow> string \<Rightarrow> rematch list \<Rightarrow> string" where
  "heading_loop content position current [] = current"
| "heading_loop content position current (h # hs) =
     (if m_start h < position
      then heading_loop content position (strip (m_group content h 2)) hs
      else current)"

definition get_current_heading :: "string \<Rightarrow> nat \<Rightarrow> string" where
  "get_current_heading content position =
     heading_loop content position ''Introduction'' (finditer HEADING_PATTERN content)"

text \<open>The lines of an anchor's text up to the first heading or horizontal rule.\<close>

fun clean_lines :: "string list \<Rightarrow> string list" where
  "clean_lines [] = []"
| "clean_lines (line # ls) =
     (let stripped = strip line
      in if startswith stripped ''#'' \<or> stripped = ''---'' then []
         else line # clean_lines ls)"

text \<open>
  The text that \<open>_parse_citations\<close> extracts for the anchor \<open>m\<close>, where \<open>rest\<close> are the
  anchors after it: the text from the end of the anchor to the start of the next anchor
  (or the end of the document), cut at the first heading or horizontal rule.
\<close>

definition anchor_text :: "string \<Rightarrow> rematch \<Rightarrow> rematch list \<Rightarrow> string" where
  "anchor_text content m rest =
     (let start = m_end m;
          end = (case rest of [] \<Rightarrow> length content | n # _ \<Rightarrow> m_start n);
          raw_text = strip (take (end - start) (drop start content));
          txt = strip (join [NL] (clean_lines (split_on NL raw_text)))
      in strip (re_sub_empty SOURCE_ID_PATTERN txt))"

text \<open>
  \<open>_parse_citations\<close>: the dictionary \<open>citations\<close> is an association list in insertion
  order; storing under a key that is present replaces the value in place.
\<close>

fun parse_loop ::
  "string \<Rightarrow> string \<Rightarrow> rematch list \<Rightarrow> (string \<times> Citation) list \<Rightarrow> (string \<times> Citation) list"
where
  "parse_loop content doc [] citations = citations"
| "parse_loop content doc (m # ms) citations =
     (let sid = strip (m_group content m 1);
          txt = anchor_text content m ms
      in parse_loop content doc ms
           (if txt \<noteq> []
            then AList.update sid
                   \<lparr>cit_source_id = sid, cit_text = txt, cit_document_name = doc,
                    cit_section_heading = get_current_heading content (m_start m)\<rparr> citations
            else citations))"

definition parse_citations :: "string \<Rightarrow> string \<Rightarrow> (string \<times> Citation) list" where
  "parse_citations content doc = parse_loop content doc (finditer SOURCE_ID_PATTERN content) []"


text \<open>
  The document of the concrete scenario:
  \<open>"[SourceID: A.1]\<bsol>nText one.\<bsol>n[SourceID: A.2]\<bsol>nText two.\<bsol>n## Heading\<bsol>n"\<close>.
\<close>

definition scenario_document :: string where
  "scenario_document =
     ''[SourceID: A.1]'' @ [NL] @ ''Text one.'' @ [NL] @
     ''[SourceID: A.2]'' @ [NL] @ ''Text two.'' @ [NL] @ ''## Heading'' @ [NL]"



text \<open>
  The section of a position as the specification words it: the text of the nearest heading
  of level two that starts before the position, \<open>Introduction\<close> when there is none.
\<close>

definition spec_section_heading :: "string \<Rightarrow> nat \<Rightarrow> string" where
  "spec_section_heading content position =
     (case filter (\<lambda>h. length (m_group content h 1) = 2 \<and> m_start h < position)
             (finditer HEADING_PATTERN content) of
        [] \<Rightarrow> ''Introduction''
      | f # fs \<Rightarrow> strip (m_group content (last (f # fs)) 2))"

text \<open>The same with the headings of every level, one to six.\<close>

definition nearest_heading :: "string \<Rightarrow> nat \<Rightarrow> string" where
  "nearest_heading content position =
     (case filter (\<lambda>h. m_start h < position) (finditer HEADING_PATTERN content) of
        [] \<Rightarrow> ''Introduction''
      | f # fs \<Rightarrow> strip (m_group content (last (f # fs)) 2))"

text \<open>
  A document with an anchor below a heading of level three:
  \<open>"## Sec\<bsol>n### Sub\<bsol>n[SourceID: A]\<bsol>nx"\<close>.
\<close>

definition subheading_document :: string where
  "subheading_document =
     ''## Sec'' @ [NL] @ ''### Sub'' @ [NL] @ ''[SourceID: A]'' @ [NL] @ ''x''"

text \<open>
  A document that uses the source id \<open>A\<close> for two anchors, before and after a heading:
  \<open>"[SourceID: A]\<bsol>none\<bsol>n## H\<bsol>n[SourceID: A]\<bsol>ntwo"\<close>.
\<close>

definition repeated_anchor_document :: string where
  "repeated_anchor_document =
     ''[SourceID: A]'' @ [NL] @ ''one'' @ [NL] @ ''## H'' @ [NL] @ ''[SourceID: A]'' @ [NL] @ ''two''"

text \<open>
  The citation that the anchors \<open>ms\<close> leave in the dictionary under the source id \<open>k\<close>:
  the one of the last anchor with this id whose text is not empty.
\<close>

fun stored_citation :: "string \<Rightarrow> string \<Rightarrow> string \<Rightarrow> rematch list \<Rightarrow> Citation option" where
  "stored_citation content doc k [] = None"
| "stored_citation content doc k (m # ms) =
     (case stored_citation content doc k ms of
        Some c \<Rightarrow> Some c
      | None \<Rightarrow>
          if strip (m_group content m 1) = k \<and> anchor_text content m ms \<noteq> []
          then Some \<lparr>cit_source_id = k, cit_text = anchor_text content m ms,
                     cit_document_name = doc,
                     cit_section_heading = get_current_heading content (m_start m)\<rparr>
          else None)"


section \<open>The constraint models (\<open>models/constraints.py\<close>)\<close>

datatype Jurisdiction = SWEDEN | EU | UK | US_CALIFORNIA | US_DELAWARE | US_NEW_YORK

fun jurisdiction_value :: "Jurisdiction \<Rightarrow> string" where
  "jurisdiction_value SWEDEN = ''Sweden''"
| "jurisdiction_value EU = ''European Union''"
| "jurisdiction_value UK = ''United Kingdom''"
| "jurisdiction_value US_CALIFORNIA = ''California, USA''"
| "jurisdiction_value US_DELAWARE = ''Delaware, USA''"
| "jurisdiction_value US_NEW_YORK = ''New York, USA''"

datatype ContractType = NDA | MSA | DPA | PRIVACY_POLICY | SLA

fun contract_type_value :: "ContractType \<Rightarrow> string" where
  "contract_type_value NDA = ''Non-Disclosure Agreement''"
| "contract_type_value MSA = ''Master Services Agreement''"
| "contract_type_value DPA = ''Data Processing Agreement''"
| "contract_type_value PRIVACY_POLICY = ''Privacy Policy''"
| "contract_type_value SLA = ''Service Level Agreement''"

datatype RiskLevel = LOW | MEDIUM | HIGH | CRITICAL

fun risk_level_value :: "RiskLevel \<Rightarrow> string" where
  "risk_level_value LOW = ''low''"
| "risk_level_value MEDIUM = ''medium''"
| "risk_level_value HIGH = ''high''"
| "risk_level_value CRITICAL = ''critical''"

text \<open>
  A Python exception that reaches the caller, with its \<open>str(e)\<close>: the handlers of the
  source tell \<open>ValueError\<close> from every other class.
\<close>

datatype pyexc = ValueError string | OtherError string

fun exc_str :: "pyexc \<Rightarrow> string" where
  "exc_str (ValueError m) = m"
| "exc_str (OtherError m) = m"

text \<open>A \<open>float\<close> that is finite is a rational number.\<close>

record LiabilityConstraints =
  max_liability_amount :: "rat option"
  liability_cap_multiple_of_fees :: "rat option"
  allows_consequential_damages :: bool
  allows_unlimited_liability :: bool

text \<open>The model validator of \<open>LiabilityConstraints\<close>, run at construction.\<close>

definition validate_liability_cap :: "LiabilityConstraints \<Rightarrow> pyexc + LiabilityConstraints" where
  "validate_liability_cap l =
     (if max_liability_amount l = None \<and> liability_cap_multiple_of_fees l = None
         \<and> \<not> allows_unlimited_liability l
      then Inl (ValueError (''A liability cap must be defined: either max_liability_amount, '' @
                            ''liability_cap_multiple_of_fees, or allows_unlimited_liability=True''))
      else Inr l)"

record DataProtectionConstraints =
  required_jurisdiction :: Jurisdiction
  requires_gdpr_compliance :: bool
  max_data_retention_days :: "int option"
  requires_breach_notification :: bool
  max_breach_notification_hours :: int
  allows_cross_border_transfer :: bool
  requires_sub_processor_approval :: bool

record TerminationConstraints =
  min_notice_period_days :: int
  allows_termination_for_convenience :: bool
  requires_data_return_on_termination :: bool

record ForbiddenClause =
  fc_pattern :: string
  fc_reason :: string
  fc_severity :: RiskLevel

text \<open>
  The field \<open>termination\<close> of the source is \<open>termination_constraints\<close> here, since
  \<open>termination\<close> is a reserved word.
\<close>

record ContractConstraints =
  contract_type :: ContractType
  governing_jurisdiction :: Jurisdiction
  liability :: LiabilityConstraints
  data_protection :: DataProtectionConstraints
  termination_constraints :: TerminationConstraints
  forbidden_clauses :: "ForbiddenClause list"
  required_source_ids :: "string list"
  max_clause_length :: int

text \<open>
  \<open>ContractConstraints(contract_type=t, governing_jurisdiction=j)\<close>, every other field at
  the default of the model: the profile that \<open>_resolve_constraints\<close> builds from a request
  without a preset.
\<close>

definition default_constraints :: "ContractType \<Rightarrow> Jurisdiction \<Rightarrow> ContractConstraints" where
  "default_constraints t j =
     \<lparr>contract_type = t,
      governing_jurisdiction = j,
      liability = \<lparr>max_liability_amount = None, liability_cap_multiple_of_fees = Some 2,
                   allows_consequential_damages = False, allows_unlimited_liability = False\<rparr>,
      data_protection = \<lparr>required_jurisdiction = EU, requires_gdpr_compliance = True,
                         max_data_retention_days = None, requires_breach_notification = True,
                         max_breach_notification_hours = 72, allows_cross_border_transfer = True,
                         requires_sub_processor_approval = True\<rparr>,
      termination_constraints = \<lparr>min_notice_period_days = 30,
                                 allows_termination_for_convenience = True,
                                 requires_data_return_on_termination = True\<rparr>,
      forbidden_clauses = [],
      required_source_ids = [],
      max_clause_length = 500\<rparr>"

record GeneratedCitation =
  gcit_source_id :: string
  gcit_relevance :: string

record GeneratedClause =
  clause_title :: string
  clause_text :: string
  clause_citations :: "GeneratedCitation list"
  clause_risk_level :: RiskLevel
  clause_reasoning :: string

record AgentOutput =
  out_clauses :: "GeneratedClause list"
  out_summary :: string
  out_governing_jurisdiction :: Jurisdiction
  out_confidence_score :: rat

record ValidationViolation =
  vv_field :: string
  vv_message :: string
  vv_severity :: RiskLevel
  vv_suggestion :: string

record ValidationResult =
  is_valid :: bool
  violations :: "ValidationViolation list"
  attempt_number :: int


section \<open>The validator (\<open>services/validator.py\<close>)\<close>

text \<open>The apostrophe, which a string literal cannot hold.\<close>

definition SQ :: string where
  "SQ = [CHR 0x27]"

text \<open>\<open>_get_full_text\<close>\<close>

definition get_full_text :: "AgentOutput \<Rightarrow> string" where
  "get_full_text out = join '' '' (map clause_text (out_clauses out))"

text \<open>\<open>_check_jurisdiction\<close>\<close>

definition check_jurisdiction :: "AgentOutput \<Rightarrow> ContractConstraints \<Rightarrow> ValidationViolation list" where
  "check_jurisdiction out constraints =
     (if out_governing_jurisdiction out \<noteq> governing_jurisdiction constraints
      then [\<lparr>vv_field = ''governing_jurisdiction'',
             vv_message = ''Expected jurisdiction '' @ SQ
                @ jurisdiction_value (governing_jurisdiction constraints) @ SQ @ '' ''
                @ ''but got '' @ SQ @ jurisdiction_value (out_governing_jurisdiction out)
                @ SQ @ ''.'',
             vv_severity = HIGH,
             vv_suggestion = ''Change the governing jurisdiction to '' @ SQ
                @ jurisdiction_value (governing_jurisdiction constraints) @ SQ @ ''.''\<rparr>]
      else [])"

text \<open>
  \<open>_check_forbidden_clauses\<close>. The patterns come with the profile, so
  \<open>re.search(pattern, text) is not None\<close> is a parameter \<open>re_search\<close>; it raises \<open>re.error\<close>
  on a pattern that does not compile, and the check then raises too.
\<close>

fun forbidden_loop ::
  "(string \<Rightarrow> string \<Rightarrow> pyexc + bool) \<Rightarrow> string \<Rightarrow> ForbiddenClause list
     \<Rightarrow> ValidationViolation list \<Rightarrow> pyexc + ValidationViolation list"
where
  "forbidden_loop re_search full_text [] vs = Inr vs"
| "forbidden_loop re_search full_text (forbidden # rest) vs =
     (case re_search (fc_pattern forbidden) full_text of
        Inl e \<Rightarrow> Inl e
      | Inr found \<Rightarrow>
          forbidden_loop re_search full_text rest
            (if found
             then vs @ [\<lparr>vv_field = ''forbidden_clause'',
                         vv_message = ''Forbidden pattern detected: '' @ SQ @ fc_pattern forbidden
                            @ SQ @ ''. '' @ ''Reason: '' @ fc_reason forbidden,
                         vv_severity = fc_severity forbidden,
                         vv_suggestion = ''Remove or rephrase any language matching: ''
                            @ fc_pattern forbidden\<rparr>]
             else vs))"

definition check_forbidden_clauses ::
  "(string \<Rightarrow> string \<Rightarrow> pyexc + bool) \<Rightarrow> AgentOutput \<Rightarrow> ContractConstraints
     \<Rightarrow> pyexc + ValidationViolation list"
where
  "check_forbidden_clauses re_search out constraints =
     forbidden_loop re_search (get_full_text out) (forbidden_clauses constraints) []"

text \<open>\<open>_check_required_citations\<close>\<close>

definition cited_ids :: "AgentOutput \<Rightarrow> string list" where
  "cited_ids out = concat (map (\<lambda>clause. map gcit_source_id (clause_citations clause)) (out_clauses out))"

fun required_loop :: "string list \<Rightarrow> string list \<Rightarrow> ValidationViolation list" where
  "required_loop cited [] = []"
| "required_loop cited (required_id # rest) =
     (if required_id \<notin> set cited
      then [\<lparr>vv_field = ''required_citations'',
             vv_message = ''Required citation '' @ SQ @ required_id @ SQ
                @ '' is missing from the output.'',
             vv_severity = MEDIUM,
             vv_suggestion = ''Include a citation to [SourceID: '' @ required_id
                @ ''] in your response.''\<rparr>]
      else [])
     @ required_loop cited rest"

definition check_required_citations ::
  "AgentOutput \<Rightarrow> ContractConstraints \<Rightarrow> ValidationViolation list"
where
  "check_required_citations out constraints =
     (if required_source_ids constraints = [] then []
      else required_loop (cited_ids out) (required_source_ids constraints))"

text \<open>\<open>_check_liability\<close>, with its patterns \<open>unlimited\<bsol>s+liability\<close> and
  \<open>consequential\<bsol>s+damages?\<bsol>b\<close>.\<close>

definition UNLIMITED_LIABILITY_PATTERN :: regex where
  "UNLIMITED_LIABILITY_PATTERN =
     Seq (lit ''unlimited'') (Seq (Rep White 1 None) (lit ''liability''))"

definition CONSEQUENTIAL_DAMAGES_PATTERN :: regex where
  "CONSEQUENTIAL_DAMAGES_PATTERN =
     Seq (lit ''consequential'')
       (Seq (Rep White 1 None)
         (Seq (lit ''damage'') (Seq (Rep (Lit (CHR ''s'')) 0 (Some 1)) WordB)))"

definition check_liability :: "AgentOutput \<Rightarrow> ContractConstraints \<Rightarrow> ValidationViolation list" where
  "check_liability out constraints =
     (let full_text = lower (get_full_text out);
          liab = liability constraints
      in (if \<not> allows_unlimited_liability liab \<and> re_found UNLIMITED_LIABILITY_PATTERN full_text
          then [\<lparr>vv_field = ''liability.unlimited'',
                 vv_message = ''Output contains '' @ SQ @ ''unlimited liability'' @ SQ
                    @ '' but this is not permitted.'',
                 vv_severity = CRITICAL,
                 vv_suggestion = ''Replace unlimited liability with a capped liability clause.''\<rparr>]
          else [])
         @
         (if \<not> allows_consequential_damages liab
             \<and> re_found CONSEQUENTIAL_DAMAGES_PATTERN full_text
          then [\<lparr>vv_field = ''liability.consequential_damages'',
                 vv_message = ''Output mentions '' @ SQ @ ''consequential damages'' @ SQ
                    @ '' but these are excluded by the constraint profile.'',
                 vv_severity = HIGH,
                 vv_suggestion = ''Add exclusion language for consequential and indirect damages.''\<rparr>]
          else []))"

text \<open>\<open>_check_data_protection\<close>\<close>

definition check_data_protection ::
  "AgentOutput \<Rightarrow> ContractConstraints \<Rightarrow> ValidationViolation list"
where
  "check_data_protection out constraints =
     (let full_text = lower (get_full_text out);
          dp = data_protection constraints
      in (if requires_gdpr_compliance dp
             \<and> \<not> contains full_text ''gdpr'' \<and> \<not> contains full_text ''general data protection''
          then [\<lparr>vv_field = ''data_protection.gdpr'',
                 vv_message = ''GDPR compliance is required but no GDPR reference found in output.'',
                 vv_severity = HIGH,
                 vv_suggestion = ''Include explicit reference to GDPR compliance.''\<rparr>]
          else [])
         @
         (if requires_breach_notification dp
             \<and> \<not> contains full_text ''breach'' \<and> \<not> contains full_text ''notification''
          then [\<lparr>vv_field = ''data_protection.breach_notification'',
                 vv_message = ''Breach notification clause is required but not found.'',
                 vv_severity = HIGH,
                 vv_suggestion = ''Include a breach notification clause with a ''
                    @ str_int (max_breach_notification_hours dp) @ ''-hour notification window.''\<rparr>]
          else []))"

text \<open>\<open>_check_clause_length\<close>\<close>

fun clause_length_loop :: "int \<Rightarrow> GeneratedClause list \<Rightarrow> ValidationViolation list" where
  "clause_length_loop limit [] = []"
| "clause_length_loop limit (clause # rest) =
     (let word_count = int (length (split_ws (clause_text clause)))
      in if word_count > limit
         then [\<lparr>vv_field = ''clause_length.'' @ clause_title clause,
                vv_message = ''Clause '' @ SQ @ clause_title clause @ SQ @ '' has ''
                   @ str_int word_count @ '' words, '' @ ''exceeding the limit of ''
                   @ str_int limit @ ''.'',
                vv_severity = LOW,
                vv_suggestion = ''Shorten this clause to under '' @ str_int limit @ '' words.''\<rparr>]
         else [])
     @ clause_length_loop limit rest"

definition check_clause_length ::
  "AgentOutput \<Rightarrow> ContractConstraints \<Rightarrow> ValidationViolation list"
where
  "check_clause_length out constraints =
     clause_length_loop (max_clause_length constraints) (out_clauses out)"

text \<open>
  \<open>validate_output\<close>: the list \<open>violations\<close> is extended by the six checks in turn; the
  result carries the default \<open>attempt_number\<close> of the model, 1.
\<close>

definition validate_output ::
  "(string \<Rightarrow> string \<Rightarrow> pyexc + bool) \<Rightarrow> AgentOutput \<Rightarrow> ContractConstraints
     \<Rightarrow> pyexc + ValidationResult"
where
  "validate_output re_search out constraints =
     (let v0 = [];
          v1 = v0 @ check_jurisdiction out constraints
      in case check_forbidden_clauses re_search out constraints of
           Inl e \<Rightarrow> Inl e
         | Inr forbidden \<Rightarrow>
             (let v2 = v1 @ forbidden;
                  v3 = v2 @ check_required_citations out constraints;
                  v4 = v3 @ check_liability out constraints;
                  v5 = v4 @ check_data_protection out constraints;
                  v6 = v5 @ check_clause_length out constraints;
                  valid = (length v6 = 0)
              in Inr \<lparr>is_valid = valid, violations = v6, attempt_number = 1\<rparr>))"


text \<open>
  The checks of the schema of \<open>AgentOutput\<close> that the validator relies on: at least one
  clause, every clause text stripped and not empty, the confidence between 0 and 1.
\<close>

definition output_schema_ok :: "AgentOutput \<Rightarrow> bool" where
  "output_schema_ok out =
     (out_clauses out \<noteq> []
      \<and> list_all (\<lambda>clause. clause_text clause \<noteq> [] \<and> strip (clause_text clause) = clause_text clause)
           (out_clauses out)
      \<and> 0 \<le> out_confidence_score out \<and> out_confidence_score out \<le> 1)"

text \<open>
  An output of two clauses: the first ends with \<open>unlimited\<close>, the second begins with
  \<open>liability\<close>.
\<close>

definition split_output :: AgentOutput where
  "split_output =
     \<lparr>out_clauses =
        [\<lparr>clause_title = ''Cap'', clause_text = ''The Supplier does not accept unlimited'',
          clause_citations = [], clause_risk_level = LOW, clause_reasoning = []\<rparr>,
         \<lparr>clause_title = ''Scope'',
          clause_text = ''liability applies as set out in the GDPR breach notification schedule.'',
          clause_citations = [], clause_risk_level = LOW, clause_reasoning = []\<rparr>],
      out_summary = ''Liability'',
      out_governing_jurisdiction = SWEDEN,
      out_confidence_score = 9 / 10\<rparr>"


section \<open>The agent loop (\<open>services/agent.py\<close>, \<open>services/llm_client.py\<close>)\<close>

datatype AgentState =
    INITIALIZING | RETRIEVING | DRAFTING | VALIDATING | VIOLATION_FOUND
  | CORRECTING | FINALIZING | COMPLETE | ERROR

text \<open>The values that the payload of an event and a parsed JSON text hold.\<close>

datatype pyval =
    PNone | PBool bool | PInt int | PFloat rat | PStr string
  | PList "pyval list" | PDict "(string \<times> pyval) list"

record AgentEvent =
  ev_state :: AgentState
  ev_message :: string
  ev_data :: "(string \<times> pyval) list option"
  ev_timestamp :: rat

text \<open>The field \<open>output\<close> of the source is \<open>res_output\<close> here: \<open>output\<close> is a reserved word.\<close>

record AgentResult =
  res_output :: "AgentOutput option"
  validation :: ValidationResult
  events :: "AgentEvent list"
  total_attempts :: int
  success :: bool
  error_message :: "string option"

text \<open>A chunk of the document store; its \<open>metadata\<close> is never written or read.\<close>

record DocumentChunk =
  chunk_id :: string
  chunk_text :: string
  chunk_document_name :: string
  chunk_source_ids :: "string list"

text \<open>
  What a run reads from outside: the settings, the document store, the model behind the
  gateway, the libraries and the clock. A call to the model or to the store may answer
  differently each time, so both take the number of the calls made before.
  \<^item> \<open>get_all_chunks\<close>: the chunks of the store, or the exception of a failed load;
  \<^item> \<open>generate_completion\<close>: the raw text of the model for a system and a user prompt;
  \<^item> \<open>json_loads\<close>: \<open>json.loads\<close>, \<open>Inl\<close> its \<open>JSONDecodeError\<close> or any other exception;
  \<^item> \<open>model_validate\<close>: \<open>AgentOutput.model_validate\<close>, \<open>Inl\<close> the message of its error;
  \<^item> \<open>re_search\<close>: \<open>re.search\<close> on a pattern of the profile;
  \<^item> \<open>model_dump_json\<close>: \<open>constraints.model_dump_json(indent=2)\<close>;
  \<^item> \<open>fmt_percent\<close>: the format \<open>.0%\<close> of a float;
  \<^item> \<open>time_time\<close>: the reading of the clock when the event of that number is made.
\<close>

text \<open>
  How \<open>json.loads\<close> fails: with a \<open>JSONDecodeError\<close>, of which the gateway takes the
  message, or with an exception of another class, which the gateway does not catch.
\<close>

datatype loads_error = JSONDecodeError string | LoadsRaised pyexc

record env =
  MAX_VALIDATION_RETRIES :: int
  get_all_chunks :: "nat \<Rightarrow> pyexc + DocumentChunk list"
  generate_completion :: "nat \<Rightarrow> string \<Rightarrow> string \<Rightarrow> pyexc + string"
  json_loads :: "string \<Rightarrow> loads_error + pyval"
  model_validate :: "pyval \<Rightarrow> string + AgentOutput"
  re_search :: "string \<Rightarrow> string \<Rightarrow> pyexc + bool"
  model_dump_json :: "ContractConstraints \<Rightarrow> string"
  fmt_percent :: "rat \<Rightarrow> string"
  time_time :: "nat \<Rightarrow> rat"

text \<open>
  The calls a run has made: the prompts of each call to the model, in order, and the
  number of reads of the document store.
\<close>

record world =
  llm_calls :: "(string \<times> string) list"
  retrievals :: nat

definition DQ :: string where
  "DQ = [CHR 0x22]"

text \<open>
  \<open>generate_structured_output\<close>, the gateway; \<open>k\<close> is the number of earlier calls. Only
  the \<open>JSONDecodeError\<close> of \<open>json.loads\<close> and the errors of the schema check are wrapped in
  a \<open>ValueError\<close>; every other exception passes through as it is.
\<close>

definition generate_structured_output :: "env \<Rightarrow> nat \<Rightarrow> string \<Rightarrow> string \<Rightarrow> pyexc + AgentOutput" where
  "generate_structured_output env k system_prompt user_prompt =
     (case generate_completion env k system_prompt user_prompt of
        Inl e \<Rightarrow> Inl e
      | Inr raw \<Rightarrow>
          (case json_loads env raw of
             Inl (JSONDecodeError e) \<Rightarrow> Inl (ValueError (''LLM returned invalid JSON: '' @ e))
           | Inl (LoadsRaised x) \<Rightarrow> Inl x
           | Inr data \<Rightarrow>
               (case model_validate env data of
                  Inl e \<Rightarrow> Inl (ValueError (''LLM output failed schema validation: '' @ e))
                | Inr out \<Rightarrow> Inr out)))"

text \<open>\<open>_build_system_prompt\<close> with \<open>SYSTEM_PROMPT_TEMPLATE\<close>\<close>

definition SYSTEM_PROMPT_TEMPLATE :: "string \<Rightarrow> string \<Rightarrow> string \<Rightarrow> string \<Rightarrow> string" where
  "SYSTEM_PROMPT_TEMPLATE jurisdiction max_clause_len constraints_json source_context =
     ''You are a Legal AI Assistant for Legora Trust-Architect.'' @ [NL] @
       ''Your task is to generate legally precise contract clauses based on the provided '' @
       ''context and constraints.'' @ [NL] @ [NL] @ ''CRITICAL RULES:'' @ [NL] @
       ''1. You MUST output valid JSON conforming to the schema below.'' @ [NL] @
       ''2. You MUST cite sources using the provided SourceIDs.'' @ [NL] @
       ''3. You MUST respect the governing jurisdiction: ''
     @ jurisdiction
     @ ''.'' @ [NL] @ ''4. You MUST NOT include any forbidden clause patterns.'' @ [NL] @
       ''5. Each clause must be under ''
     @ max_clause_len
     @ '' words.'' @ [NL] @
       ''6. Set confidence_score based on how well your output matches the constraints.'' @
       [NL] @ [NL] @ ''OUTPUT JSON SCHEMA:'' @ [NL] @ ''{'' @ [NL] @ ''    '' @ DQ @
       ''clauses'' @ DQ @ '': ['' @ [NL] @ ''        {'' @ [NL] @ ''            '' @ DQ @
       ''title'' @ DQ @ '': '' @ DQ @ ''string - clause heading'' @ DQ @ '','' @ [NL] @
       ''            '' @ DQ @ ''text'' @ DQ @ '': '' @ DQ @ ''string - the clause text'' @ DQ @
       '','' @ [NL] @ ''            '' @ DQ @ ''citations'' @ DQ @ '': [{'' @ DQ @
       ''source_id'' @ DQ @ '': '' @ DQ @ ''string'' @ DQ @ '', '' @ DQ @ ''relevance'' @ DQ @
       '': '' @ DQ @ ''string'' @ DQ @ ''}],'' @ [NL] @ ''            '' @ DQ @ ''risk_level'' @
       DQ @ '': '' @ DQ @ ''low|medium|high|critical'' @ DQ @ '','' @ [NL] @ ''            '' @
       DQ @ ''reasoning'' @ DQ @ '': '' @ DQ @ ''string - why you drafted it this way'' @ DQ @
       [NL] @ ''        }'' @ [NL] @ ''    ],'' @ [NL] @ ''    '' @ DQ @ ''summary'' @ DQ @
       '': '' @ DQ @ ''string - brief summary'' @ DQ @ '','' @ [NL] @ ''    '' @ DQ @
       ''governing_jurisdiction'' @ DQ @ '': '' @ DQ
     @ jurisdiction
     @ DQ @ '','' @ [NL] @ ''    '' @ DQ @ ''confidence_score'' @ DQ @ '': 0.0-1.0'' @ [NL] @
       ''}'' @ [NL] @ [NL] @ ''CONSTRAINT PROFILE:'' @ [NL]
     @ constraints_json
     @ [NL] @ [NL] @ ''AVAILABLE SOURCE CONTEXT:'' @ [NL]
     @ source_context
     @ [NL]"

definition build_system_prompt :: "env \<Rightarrow> ContractConstraints \<Rightarrow> string \<Rightarrow> string" where
  "build_system_prompt env constraints source_context =
     (let constraints_json = model_dump_json env constraints
      in SYSTEM_PROMPT_TEMPLATE
           (jurisdiction_value (governing_jurisdiction constraints))
           (str_int (max_clause_length constraints))
           constraints_json
           source_context)"

text \<open>\<open>_build_retry_context\<close> with \<open>RETRY_INJECTION_TEMPLATE\<close>\<close>

definition RETRY_INJECTION_TEMPLATE :: "string \<Rightarrow> string \<Rightarrow> string" where
  "RETRY_INJECTION_TEMPLATE violation_summary fix_suggestions =
     [NL] @ ''YOUR PREVIOUS ATTEMPT WAS REJECTED. You must fix the following violations:'' @
       [NL] @ [NL]
     @ violation_summary
     @ [NL] @ [NL] @ ''SPECIFIC FIXES REQUIRED:'' @ [NL]
     @ fix_suggestions
     @ [NL] @ [NL] @ ''Generate a CORRECTED version that addresses ALL violations above.'' @
       [NL] @ ''Maintain the same JSON schema.'' @ [NL]"

definition summary_line :: "ValidationViolation \<Rightarrow> string" where
  "summary_line v =
     ''- ['' @ upper (risk_level_value (vv_severity v)) @ ''] '' @ vv_field v @ '': '' @ vv_message v"

definition build_retry_context :: "ValidationViolation list \<Rightarrow> string" where
  "build_retry_context vs =
     (let summary_lines = map summary_line vs;
          fix_lines = map (\<lambda>v. ''- '' @ vv_suggestion v) (filter (\<lambda>v. vv_suggestion v \<noteq> []) vs)
      in RETRY_INJECTION_TEMPLATE
           (join [NL] summary_lines)
           (if fix_lines \<noteq> [] then join [NL] fix_lines
            else ''Review and correct the violations.''))"

text \<open>\<open>_get_relevant_context\<close>, given the chunks that \<open>get_all_chunks()\<close> returned.\<close>

definition type_to_prefix :: "(string \<times> string) list" where
  "type_to_prefix =
     [(''Data Processing Agreement'', ''legora_dpa''),
      (''Privacy Policy'', ''legora_privacy''),
      (''Master Services Agreement'', ''zegal_msa''),
      (''Non-Disclosure Agreement'', ''legora_dpa''),
      (''Service Level Agreement'', ''zegal_msa'')]"

definition context_part :: "DocumentChunk \<Rightarrow> string" where
  "context_part chunk =
     (let source_ids_str =
            (if chunk_source_ids chunk \<noteq> [] then join '', '' (chunk_source_ids chunk) else ''N/A'')
      in ''[Sources: '' @ source_ids_str @ '']'' @ [NL] @ chunk_text chunk @ [NL])"

definition relevant_context :: "ContractConstraints \<Rightarrow> DocumentChunk list \<Rightarrow> string" where
  "relevant_context constraints chunks =
     (let target_prefix =
            (case map_of type_to_prefix (contract_type_value (contract_type constraints)) of
               Some p \<Rightarrow> p | None \<Rightarrow> []);
          relevant = filter (\<lambda>c. chunk_document_name c = target_prefix) chunks;
          relevant' = (if relevant = [] then take 20 chunks else relevant)
      in join ([NL] @ ''---'' @ [NL]) (map context_part (take 15 relevant')))"

definition get_relevant_context :: "env \<Rightarrow> ContractConstraints \<Rightarrow> world \<Rightarrow> (pyexc + string) \<times> world" where
  "get_relevant_context env constraints w =
     (let w' = w\<lparr>retrievals := Suc (retrievals w)\<rparr>
      in case get_all_chunks env (retrievals w) of
           Inl e \<Rightarrow> (Inl e, w')
         | Inr chunks \<Rightarrow> (Inr (relevant_context constraints chunks), w'))"

text \<open>\<open>emit\<close>: the event is appended to the trace, stamped with the clock.\<close>

definition emit ::
  "env \<Rightarrow> AgentEvent list \<Rightarrow> AgentState \<Rightarrow> string \<Rightarrow> (string \<times> pyval) list option \<Rightarrow> AgentEvent list"
where
  "emit env evs st msg data =
     evs @ [\<lparr>ev_state = st, ev_message = msg, ev_data = data,
             ev_timestamp = time_time env (length evs)\<rparr>]"

text \<open>\<open>ValidationResult(is_valid=False, violations=[])\<close>\<close>

definition no_validation :: ValidationResult where
  "no_validation = \<lparr>is_valid = False, violations = [], attempt_number = 1\<rparr>"

text \<open>The variables of the loop of \<open>run_agent_sync\<close>, with the calls made so far.\<close>

record loop_state =
  ls_events :: "AgentEvent list"
  ls_current_prompt :: string
  ls_last_output :: "AgentOutput option"
  ls_last_validation :: "ValidationResult option"
  ls_world :: world

text \<open>How one pass through the body of the loop ends.\<close>

datatype outcome = Raise pyexc | Return AgentResult | Continue

definition violation_payload :: "ValidationViolation \<Rightarrow> pyval" where
  "violation_payload v =
     PDict [(''field'', PStr (vv_field v)), (''message'', PStr (vv_message v)),
            (''severity'', PStr (risk_level_value (vv_severity v)))]"

text \<open>
  The literals of three messages hold a code point above 255 (a check mark, a cross mark
  and a dash); they are written in UTF-8, and nothing looks inside these messages.
\<close>

text \<open>The handler \<open>except ValueError as e\<close> around the call of the gateway.\<close>

definition on_gateway_error ::
  "env \<Rightarrow> string \<Rightarrow> int \<Rightarrow> loop_state \<Rightarrow> string \<Rightarrow> outcome \<times> loop_state"
where
  "on_gateway_error env user_prompt attempt st m =
     (let max_retries = MAX_VALIDATION_RETRIES env;
          ev = emit env (ls_events st) ERROR (''LLM output error: '' @ m) None
      in if attempt < max_retries
         then (Continue,
               st\<lparr>ls_events := ev,
                  ls_current_prompt :=
                    user_prompt @ [NL, NL] @ ''PREVIOUS ATTEMPT FAILED: '' @ m @ [NL]
                      @ ''Please fix and try again.''\<rparr>)
         else (Return \<lparr>res_output = None, validation = no_validation, events = ev,
                       total_attempts = attempt, success = False, error_message = Some m\<rparr>,
               st\<lparr>ls_events := ev\<rparr>))"

text \<open>The rest of the body, once the validation result \<open>vres\<close> is stamped with the attempt.\<close>

definition on_validation ::
  "env \<Rightarrow> string \<Rightarrow> int \<Rightarrow> loop_state \<Rightarrow> AgentOutput \<Rightarrow> ValidationResult \<Rightarrow> outcome \<times> loop_state"
where
  "on_validation env user_prompt attempt st out vres =
     (let max_retries = MAX_VALIDATION_RETRIES env;
          st1 = st\<lparr>ls_last_validation := Some vres\<rparr>
      in if is_valid vres
         then (let ev1 = emit env (ls_events st1) FINALIZING
                           ([CHR 0xE2, CHR 0x9C, CHR 0x85] @ '' All constraints satisfied!'')
                           (Some [(''attempt'', PInt attempt)]);
                   ev2 = emit env ev1 COMPLETE
                           (''Agent loop complete '' @ [CHR 0xE2, CHR 0x80, CHR 0x94] @ '' output verified.'') None
               in (Return \<lparr>res_output = Some out, validation = vres, events = ev2,
                            total_attempts = attempt, success = True, error_message = None\<rparr>,
                   st1\<lparr>ls_events := ev2\<rparr>))
         else (let ev1 = emit env (ls_events st1) VIOLATION_FOUND
                           ([CHR 0xE2, CHR 0x9D, CHR 0x8C] @ '' '' @ str_nat (length (violations vres))
                              @ '' violation(s) found'')
                           (Some [(''violations'',
                                   PList (map violation_payload (violations vres)))])
               in if attempt < max_retries
                  then (Continue,
                        st1\<lparr>ls_events :=
                              emit env ev1 CORRECTING
                                (''Injecting corrections for retry '' @ str_int (attempt + 1)
                                   @ ''...'') None,
                            ls_current_prompt :=
                              user_prompt @ build_retry_context (violations vres)\<rparr>)
                  else (Continue,
                        st1\<lparr>ls_events :=
                              emit env ev1 ERROR
                                (''Max retries ('' @ str_int max_retries
                                   @ '') exhausted. Returning best effort.'') None\<rparr>)))"

text \<open>
  The state when the gateway has been called: the event \<open>DRAFTING\<close> is in the trace and
  the call is on record.
\<close>

definition drafting :: "env \<Rightarrow> string \<Rightarrow> int \<Rightarrow> loop_state \<Rightarrow> loop_state" where
  "drafting env system_prompt attempt st =
     st\<lparr>ls_events :=
          emit env (ls_events st) DRAFTING
            (''Generating draft (attempt '' @ str_int attempt @ ''/''
               @ str_int (MAX_VALIDATION_RETRIES env) @ '')...'')
            (Some [(''attempt'', PInt attempt)]),
        ls_world :=
          (ls_world st)\<lparr>llm_calls :=
             llm_calls (ls_world st) @ [(system_prompt, ls_current_prompt st)]\<rparr>\<rparr>"

text \<open>The state when the gateway has returned \<open>out\<close> and the validator is about to run.\<close>

definition drafted :: "env \<Rightarrow> loop_state \<Rightarrow> AgentOutput \<Rightarrow> loop_state" where
  "drafted env st out =
     st\<lparr>ls_last_output := Some out,
        ls_events :=
          emit env
            (emit env (ls_events st) DRAFTING
               (''Draft generated: '' @ str_nat (length (out_clauses out))
                  @ '' clause(s), '' @ ''confidence ''
                  @ fmt_percent env (out_confidence_score out))
               (Some [(''clauses_count'', PInt (int (length (out_clauses out)))),
                      (''confidence'', PFloat (out_confidence_score out))]))
            VALIDATING ''Running constraint validation...'' None\<rparr>"

text \<open>
  One pass through the body of the loop: the draft, then the validation. An exception
  that is not a \<open>ValueError\<close>, from the gateway or from the validator, leaves the run.
\<close>

definition loop_body ::
  "env \<Rightarrow> string \<Rightarrow> ContractConstraints \<Rightarrow> string \<Rightarrow> int \<Rightarrow> loop_state \<Rightarrow> outcome \<times> loop_state"
where
  "loop_body env user_prompt constraints system_prompt attempt st =
     (let st1 = drafting env system_prompt attempt st
      in case generate_structured_output env (length (llm_calls (ls_world st))) system_prompt
                (ls_current_prompt st) of
           Inl (OtherError m) \<Rightarrow> (Raise (OtherError m), st1)
         | Inl (ValueError m) \<Rightarrow> on_gateway_error env user_prompt attempt st1 m
         | Inr out \<Rightarrow>
             (let st2 = drafted env st1 out
              in case validate_output (re_search env) out constraints of
                   Inl e \<Rightarrow> (Raise e, st2)
                 | Inr v \<Rightarrow>
                     on_validation env user_prompt attempt st2 out
                       (v\<lparr>attempt_number := attempt\<rparr>)))"

text \<open>The result after the loop has used up its attempts.\<close>

definition exhausted :: "env \<Rightarrow> loop_state \<Rightarrow> AgentResult" where
  "exhausted env st =
     \<lparr>res_output = ls_last_output st,
      validation = (case ls_last_validation st of Some v \<Rightarrow> v | None \<Rightarrow> no_validation),
      events = ls_events st,
      total_attempts = MAX_VALIDATION_RETRIES env,
      success = False,
      error_message = Some (''Validation failed after '' @ str_int (MAX_VALIDATION_RETRIES env)
                              @ '' attempts.'')\<rparr>"

text \<open>\<open>for attempt in range(1, max_retries + 1)\<close>, from the attempt \<open>attempt\<close> on.\<close>

function agent_loop ::
  "env \<Rightarrow> string \<Rightarrow> ContractConstraints \<Rightarrow> string \<Rightarrow> int \<Rightarrow> loop_state
     \<Rightarrow> (pyexc + AgentResult) \<times> world"
where
  "agent_loop env user_prompt constraints system_prompt attempt st =
     (if MAX_VALIDATION_RETRIES env < attempt then (Inr (exhausted env st), ls_world st)
      else (case loop_body env user_prompt constraints system_prompt attempt st of
              (Raise e, st') \<Rightarrow> (Inl e, ls_world st')
            | (Return r, st') \<Rightarrow> (Inr r, ls_world st')
            | (Continue, st') \<Rightarrow>
                agent_loop env user_prompt constraints system_prompt (attempt + 1) st'))"
  by pat_completeness auto
termination
  by (relation "measure (\<lambda>(env, user_prompt, constraints, system_prompt, attempt, st).
                  nat (MAX_VALIDATION_RETRIES env + 1 - attempt))") auto

text \<open>\<open>run_agent_sync\<close>, started in the world \<open>w\<close>.\<close>

definition run_agent_sync ::
  "env \<Rightarrow> string \<Rightarrow> ContractConstraints \<Rightarrow> world \<Rightarrow> (pyexc + AgentResult) \<times> world"
where
  "run_agent_sync env user_prompt constraints w =
     (let ev1 = emit env [] INITIALIZING ''Starting legal analysis agent...'' None;
          ev2 = emit env ev1 RETRIEVING ''Retrieving relevant source documents...'' None
      in case get_relevant_context env constraints w of
           (Inl e, w') \<Rightarrow>
             (let ev3 = emit env ev2 ERROR (''Failed to retrieve context: '' @ exc_str e) None
              in (Inr \<lparr>res_output = None, validation = no_validation, events = ev3,
                       total_attempts = 0, success = False,
                       error_message = Some (exc_str e)\<rparr>, w'))
         | (Inr source_context, w') \<Rightarrow>
             (let ev3 = emit env ev2 RETRIEVING
                          (''Retrieved context for ''
                             @ contract_type_value (contract_type constraints))
                          (Some [(''context_length'', PInt (int (length source_context)))]);
                  system_prompt = build_system_prompt env constraints source_context
              in agent_loop env user_prompt constraints system_prompt 1
                   \<lparr>ls_events = ev3, ls_current_prompt = user_prompt,
                    ls_last_output = None, ls_last_validation = None, ls_world = w'\<rparr>))"


text \<open>\<open>model_dump()\<close> of the output and of the validation result.\<close>

definition citation_model_dump :: "GeneratedCitation \<Rightarrow> pyval" where
  "citation_model_dump c =
     PDict [(''source_id'', PStr (gcit_source_id c)), (''relevance'', PStr (gcit_relevance c))]"

definition clause_model_dump :: "GeneratedClause \<Rightarrow> pyval" where
  "clause_model_dump cl =
     PDict [(''title'', PStr (clause_title cl)),
            (''text'', PStr (clause_text cl)),
            (''citations'', PList (map citation_model_dump (clause_citations cl))),
            (''risk_level'', PStr (risk_level_value (clause_risk_level cl))),
            (''reasoning'', PStr (clause_reasoning cl))]"

definition output_model_dump :: "AgentOutput \<Rightarrow> pyval" where
  "output_model_dump out =
     PDict [(''clauses'', PList (map clause_model_dump (out_clauses out))),
            (''summary'', PStr (out_summary out)),
            (''governing_jurisdiction'', PStr (jurisdiction_value (out_governing_jurisdiction out))),
            (''confidence_score'', PFloat (out_confidence_score out))]"

definition violation_model_dump :: "ValidationViolation \<Rightarrow> pyval" where
  "violation_model_dump v =
     PDict [(''field'', PStr (vv_field v)),
            (''message'', PStr (vv_message v)),
            (''severity'', PStr (risk_level_value (vv_severity v))),
            (''suggestion'', PStr (vv_suggestion v))]"

definition validation_model_dump :: "ValidationResult \<Rightarrow> pyval" where
  "validation_model_dump r =
     PDict [(''is_valid'', PBool (is_valid r)),
            (''violations'', PList (map violation_model_dump (violations r))),
            (''attempt_number'', PInt (attempt_number r))]"

text \<open>
  \<open>run_agent_streaming\<close>: the events that the generator yields, in order. The loop over
  the trace of the synchronous run comes first, then the final event.
\<close>

fun yield_events :: "AgentEvent list \<Rightarrow> AgentEvent list" where
  "yield_events [] = []"
| "yield_events (event # rest) =
     (if ev_state event = ERROR
      then \<lparr>ev_state = ev_state event, ev_message = ''An error occurred during processing'',
            ev_data = None, ev_timestamp = ev_timestamp event\<rparr>
      else event)
     # yield_events rest"

definition final_event :: "env \<Rightarrow> AgentResult \<Rightarrow> AgentEvent" where
  "final_event env result =
     (case (success result, res_output result) of
        (True, Some out) \<Rightarrow>
          \<lparr>ev_state = COMPLETE, ev_message = ''Generation complete'',
           ev_data = Some [(''output'', output_model_dump out),
                           (''validation'', validation_model_dump (validation result)),
                           (''total_attempts'', PInt (total_attempts result))],
           ev_timestamp = time_time env (length (events result))\<rparr>
      | _ \<Rightarrow>
          \<lparr>ev_state = ERROR, ev_message = ''Generation could not be completed'',
           ev_data = Some [(''validation'', validation_model_dump (validation result)),
                           (''total_attempts'', PInt (total_attempts result))],
           ev_timestamp = time_time env (length (events result))\<rparr>)"

definition run_agent_streaming ::
  "env \<Rightarrow> string \<Rightarrow> ContractConstraints \<Rightarrow> world \<Rightarrow> (pyexc + AgentEvent list) \<times> world"
where
  "run_agent_streaming env user_prompt constraints w =
     (case run_agent_sync env user_prompt constraints w of
        (Inl e, w') \<Rightarrow> (Inl e, w')
      | (Inr result, w') \<Rightarrow> (Inr (yield_events (events result) @ [final_event env result]), w'))"

text \<open>
  The redaction as the specification words it: the message of an event in the state
  \<open>ERROR\<close> is replaced by a generic phrase, and nothing else changes.
\<close>

definition redact_message :: "AgentEvent \<Rightarrow> AgentEvent" where
  "redact_message event =
     (if ev_state event = ERROR
      then event\<lparr>ev_message := ''An error occurred during processing''\<rparr>
      else event)"


text \<open>An event in the state \<open>ERROR\<close> of the synchronous run never carries data.\<close>

definition errors_bare :: "AgentEvent list \<Rightarrow> bool" where
  "errors_bare evs = list_all (\<lambda>e. ev_state e = ERROR \<longrightarrow> ev_data e = None) evs"


section \<open>Concrete runs\<close>

text \<open>
  Environments for concrete runs. In \<open>base_env\<close> the store holds one chunk of the services
  agreement and the model always answers with \<open>good_output\<close>, which satisfies the default
  profile for a services agreement under Swedish law.
\<close>

definition example_chunks :: "DocumentChunk list" where
  "example_chunks =
     [\<lparr>chunk_id = ''zegal_msa::chunk_0'',
       chunk_text = ''## Liability'' @ [NL] @ ''[SourceID: MSA-9.1] Liability is capped at the fees paid.'',
       chunk_document_name = ''zegal_msa'',
       chunk_source_ids = [''MSA-9.1'']\<rparr>]"

definition good_output :: AgentOutput where
  "good_output =
     \<lparr>out_clauses =
        [\<lparr>clause_title = ''Liability'',
          clause_text = ''Liability is capped at the fees paid; the GDPR breach notification duties apply.'',
          clause_citations = [\<lparr>gcit_source_id = ''MSA-9.1'', gcit_relevance = ''cap''\<rparr>],
          clause_risk_level = LOW, clause_reasoning = []\<rparr>],
      out_summary = ''A capped liability clause.'',
      out_governing_jurisdiction = SWEDEN,
      out_confidence_score = 9 / 10\<rparr>"

definition wrong_jurisdiction_output :: AgentOutput where
  "wrong_jurisdiction_output = good_output\<lparr>out_governing_jurisdiction := UK\<rparr>"

definition base_env :: env where
  "base_env =
     \<lparr>MAX_VALIDATION_RETRIES = 3,
      get_all_chunks = (\<lambda>k. Inr example_chunks),
      generate_completion = (\<lambda>k system_prompt user_prompt. Inr ''{}''),
      json_loads = (\<lambda>raw. Inr (PDict [])),
      model_validate = (\<lambda>data. Inr good_output),
      re_search = (\<lambda>pattern s. Inr False),
      model_dump_json = (\<lambda>constraints. ''{}''),
      fmt_percent = (\<lambda>x. ''90%''),
      time_time = (\<lambda>n. of_nat n)\<rparr>"

text \<open>The model always answers with an output under the law of the United Kingdom.\<close>

definition env_wrong_jurisdiction :: env where
  "env_wrong_jurisdiction = base_env\<lparr>model_validate := (\<lambda>data. Inr wrong_jurisdiction_output)\<rparr>"

text \<open>The answer of the model is never a JSON text.\<close>

definition env_bad_json :: env where
  "env_bad_json =
     base_env\<lparr>json_loads :=
       (\<lambda>raw. Inl (JSONDecodeError ''Expecting value: line 1 column 1 (char 0)''))\<rparr>"

text \<open>The directory of the source documents is missing.\<close>

definition env_no_store :: env where
  "env_no_store =
     base_env\<lparr>get_all_chunks :=
       (\<lambda>k. Inl (OtherError ''Source documents directory not found: data/source_documents''))\<rparr>"

definition world0 :: world where
  "world0 = \<lparr>llm_calls = [], retrievals = 0\<rparr>"

definition msa_sweden :: ContractConstraints where
  "msa_sweden = default_constraints MSA SWEDEN"


section \<open>Properties of the ingestion\<close>

declare finditer_from.simps [simp del]

text \<open>The matches of \<open>finditer\<close> start at or after the scan position, in increasing order.\<close>

lemma finditer_from_start_ge:
  "m \<in> set (finditer_from r s p) \<Longrightarrow> p \<le> m_start m"
proof (induction r s p rule: finditer_from.induct)
  case (1 r s p)
  show ?case
  proof (cases "length s < p")
    case True
    with "1.prems" show ?thesis by (simp add: finditer_from.simps [of r s p])
  next
    case False
    show ?thesis
    proof (cases "rmatch r s (p, [])")
      case Nil
      with False "1.prems" have "m \<in> set (finditer_from r s (Suc p))"
        by (simp add: finditer_from.simps [of r s p])
      with "1.IH"(1) [OF False Nil] show ?thesis by simp
    next
      case (Cons eg rest)
      obtain e g where eg: "eg = (e, g)" by (cases eg)
      let ?p' = "if e \<le> p then Suc p else e"
      from False Cons eg "1.prems"
      have "m = \<lparr>m_start = p, m_end = e, m_groups = g\<rparr> \<or> m \<in> set (finditer_from r s ?p')"
        by (simp add: finditer_from.simps [of r s p])
      then show ?thesis
      proof
        assume "m = \<lparr>m_start = p, m_end = e, m_groups = g\<rparr>"
        then show ?thesis by simp
      next
        assume "m \<in> set (finditer_from r s ?p')"
        from "1.IH"(2) [OF False Cons eg [symmetric] this]
        have "?p' \<le> m_start m" .
        then show ?thesis by (simp split: if_splits)
      qed
    qed
  qed
qed

lemma finditer_from_sorted:
  "sorted_wrt (\<lambda>a b. m_start a < m_start b) (finditer_from r s p)"
proof (induction r s p rule: finditer_from.induct)
  case (1 r s p)
  show ?case
  proof (cases "length s < p")
    case True
    then show ?thesis by (simp add: finditer_from.simps [of r s p])
  next
    case False
    show ?thesis
    proof (cases "rmatch r s (p, [])")
      case Nil
      with False "1.IH"(1) [OF False Nil] show ?thesis
        by (simp add: finditer_from.simps [of r s p])
    next
      case (Cons eg rest)
      obtain e g where eg: "eg = (e, g)" by (cases eg)
      let ?p' = "if e \<le> p then Suc p else e"
      have later: "p < m_start m" if "m \<in> set (finditer_from r s ?p')" for m
        using finditer_from_start_ge [OF that] by (simp split: if_splits)
      have unfold: "finditer_from r s p =
          \<lparr>m_start = p, m_end = e, m_groups = g\<rparr> # finditer_from r s ?p'"
        using False Cons eg by (simp add: finditer_from.simps [of r s p])
      from "1.IH"(2) [OF False Cons eg [symmetric]] later show ?thesis
        unfolding unfold by simp
    qed
  qed
qed

text \<open>
  On headings in increasing order of start, the loop of \<open>_get_current_heading\<close> returns
  the text of the last heading that starts before the position.
\<close>

lemma heading_loop_nearest:
  "sorted_wrt (\<lambda>a b. m_start a < m_start b) hs \<Longrightarrow>
   heading_loop content pos cur hs =
     (case filter (\<lambda>h. m_start h < pos) hs of
        [] \<Rightarrow> cur
      | f # fs \<Rightarrow> strip (m_group content (last (f # fs)) 2))"
proof (induction hs arbitrary: cur)
  case Nil
  then show ?case by simp
next
  case (Cons h hs)
  show ?case
  proof (cases "m_start h < pos")
    case True
    from Cons.prems have "sorted_wrt (\<lambda>a b. m_start a < m_start b) hs" by simp
    from Cons.IH [OF this, of "strip (m_group content h 2)"] True show ?thesis
      by (simp split: list.splits)
  next
    case False
    from Cons.prems have "\<forall>x \<in> set hs. m_start h < m_start x" by simp
    with False have "filter (\<lambda>h. m_start h < pos) hs = []"
      by (auto simp: filter_empty_conv)
    with False show ?thesis by simp
  qed
qed

lemma get_current_heading_nearest:
  "get_current_heading content position = nearest_heading content position"
  unfolding get_current_heading_def nearest_heading_def finditer_def
  by (rule heading_loop_nearest [OF finditer_from_sorted])

text \<open>
  What a match of a repetition, and a match that \<open>finditer\<close> reports, say about the text.
\<close>

lemma rep_sound:
  "e \<in> set (rep k lo hi rest i) \<Longrightarrow>
   \<exists>n. e = i + n \<and> lo \<le> n \<and> n \<le> length rest \<and> (\<forall>c \<in> set (take n rest). cc k c)
       \<and> (\<forall>h. hi = Some h \<longrightarrow> n \<le> h)"
proof (induction rest arbitrary: lo hi i)
  case Nil
  then show ?case by (auto split: if_splits)
next
  case (Cons c cs)
  from Cons.prems consider
    (more) "cc k c" "hi \<noteq> Some 0" "e \<in> set (rep k (lo - 1) (map_option (\<lambda>h. h - 1) hi) cs (Suc i))"
    | (stop) "lo = 0" "e = i"
    by (auto split: if_splits)
  then show ?case
  proof cases
    case more
    from Cons.IH [OF more(3)] obtain n where n: "e = Suc i + n" "lo - 1 \<le> n" "n \<le> length cs"
      "\<forall>c \<in> set (take n cs). cc k c" "\<forall>h. map_option (\<lambda>h. h - 1) hi = Some h \<longrightarrow> n \<le> h"
      by blast
    have "\<forall>h. hi = Some h \<longrightarrow> Suc n \<le> h"
    proof (intro allI impI)
      fix h assume h: "hi = Some h"
      with n(5) have "n \<le> h - 1" by simp
      moreover from h more(2) have "h \<noteq> 0" by simp
      ultimately show "Suc n \<le> h" by simp
    qed
    with n more(1) show ?thesis
      by (intro exI [of _ "Suc n"]) auto
  next
    case stop
    then show ?thesis by (intro exI [of _ 0]) simp
  qed
qed

lemma finditer_from_is_match:
  "h \<in> set (finditer_from r s p) \<Longrightarrow>
   (m_end h, m_groups h) \<in> set (rmatch r s (m_start h, [])) \<and> m_start h \<le> length s"
proof (induction r s p rule: finditer_from.induct)
  case (1 r s p)
  show ?case
  proof (cases "length s < p")
    case True
    with "1.prems" show ?thesis by (simp add: finditer_from.simps [of r s p])
  next
    case False
    show ?thesis
    proof (cases "rmatch r s (p, [])")
      case Nil
      with False "1.prems" have "h \<in> set (finditer_from r s (Suc p))"
        by (simp add: finditer_from.simps [of r s p])
      from "1.IH"(1) [OF False Nil this] show ?thesis .
    next
      case (Cons eg rest)
      obtain e g where eg: "eg = (e, g)" by (cases eg)
      let ?p' = "if e \<le> p then Suc p else e"
      from False Cons eg "1.prems"
      have "h = \<lparr>m_start = p, m_end = e, m_groups = g\<rparr> \<or> h \<in> set (finditer_from r s ?p')"
        by (simp add: finditer_from.simps [of r s p])
      then show ?thesis
      proof
        assume "h = \<lparr>m_start = p, m_end = e, m_groups = g\<rparr>"
        with Cons eg False show ?thesis by simp
      next
        assume "h \<in> set (finditer_from r s ?p')"
        from "1.IH"(2) [OF False Cons eg [symmetric] this] show ?thesis .
      qed
    qed
  qed
qed


lemma rep_sound_pos:
  assumes "e \<in> set (rep k lo hi (drop i s) i)"
  shows "i + lo \<le> e \<and> e \<le> i + (length s - i) \<and> (\<forall>j. i \<le> j \<and> j < e \<longrightarrow> cc k (s ! j))
         \<and> (\<forall>h. hi = Some h \<longrightarrow> e \<le> i + h)"
proof -
  from rep_sound [OF assms] obtain n where n: "e = i + n" "lo \<le> n" "n \<le> length (drop i s)"
    "\<forall>c \<in> set (take n (drop i s)). cc k c" "\<forall>h. hi = Some h \<longrightarrow> n \<le> h"
    by blast
  have "cc k (s ! j)" if "i \<le> j" "j < e" for j
  proof -
    from that n(1) have lt: "j - i < n" by simp
    with n(3) have "take n (drop i s) ! (j - i) \<in> set (take n (drop i s))"
      by (intro nth_mem) simp
    moreover from lt n(3) that have "take n (drop i s) ! (j - i) = s ! j" by simp
    ultimately show ?thesis using n(4) by simp
  qed
  with n show ?thesis by simp
qed

text \<open>
  A heading, as the loader finds it, is a match of \<open>HEADING_PATTERN\<close>: it starts at the
  start of a line with one to six \<open>#\<close> marks (its first group), then whitespace, then at
  least one character up to the end of a line (its second group). Where the whitespace
  holds no line break, the match is one line of the document: marks, blanks, text.
\<close>

lemma heading_match_shape:
  assumes "h \<in> set (finditer HEADING_PATTERN content)"
  shows "\<exists>a b. m_start h < a \<and> a \<le> m_start h + 6 \<and> a < b \<and> b < m_end h
           \<and> m_end h \<le> length content
           \<and> (m_start h = 0 \<or> content ! (m_start h - 1) = NL)
           \<and> (\<forall>i. m_start h \<le> i \<and> i < a \<longrightarrow> content ! i = CHR ''#'')
           \<and> (\<forall>i. a \<le> i \<and> i < b \<longrightarrow> is_space (content ! i))
           \<and> (\<forall>i. b \<le> i \<and> i < m_end h \<longrightarrow> content ! i \<noteq> NL)
           \<and> (m_end h = length content \<or> content ! m_end h = NL)
           \<and> m_group content h 1 = take (a - m_start h) (drop (m_start h) content)
           \<and> m_group content h 2 = take (m_end h - b) (drop b content)"
proof -
  let ?p = "m_start h"
  from finditer_from_is_match [OF assms [unfolded finditer_def]]
  have m: "(m_end h, m_groups h) \<in> set (rmatch HEADING_PATTERN content (?p, []))"
    and p: "?p \<le> length content" by simp_all
  from m obtain a b where
    bol: "?p = 0 \<or> content ! (?p - 1) = NL"
    and a: "a \<in> set (rep (Lit (CHR ''#'')) 1 (Some 6) (drop ?p content) ?p)"
    and b: "b \<in> set (rep White 1 None (drop a content) a)"
    and e: "m_end h \<in> set (rep Dot 1 None (drop b content) b)"
    and g: "m_groups h = AList.update 2 (b, m_end h) (AList.update 1 (?p, a) [])"
    and eol: "m_end h = length content \<or> (m_end h < length content \<and> content ! m_end h = NL)"
    unfolding HEADING_PATTERN_def
    by (auto split: if_splits)
  from rep_sound_pos [OF a] rep_sound_pos [OF b] rep_sound_pos [OF e] bol eol g p
  show ?thesis
    by (intro exI [of _ a] exI [of _ b]) (auto simp: m_group_def)
qed

text \<open>
  The dictionary after the loop over the anchors \<open>ms\<close>: under each source id the citation
  of the last anchor with this id that has a text, else what the dictionary held before.
\<close>

lemma parse_loop_map_of:
  "map_of (parse_loop content doc ms acc) k =
     (case stored_citation content doc k ms of Some c \<Rightarrow> Some c | None \<Rightarrow> map_of acc k)"
proof (induction ms arbitrary: acc)
  case Nil
  then show ?case by simp
next
  case (Cons m ms)
  show ?case
    by (simp add: Cons.IH Let_def AList.update_conv' split: option.splits)
qed

lemma parse_loop_distinct:
  "distinct (map fst acc) \<Longrightarrow> distinct (map fst (parse_loop content doc ms acc))"
  by (induction ms arbitrary: acc) (simp_all add: Let_def AList.distinct_update)

lemma stored_citation_None:
  "(stored_citation content doc k ms = None) =
     (\<forall>j<length ms. strip (m_group content (ms ! j) 1) = k \<longrightarrow>
          anchor_text content (ms ! j) (drop (Suc j) ms) = [])"
proof (induction ms)
  case Nil
  then show ?case by simp
next
  case (Cons m ms)
  let ?P = "\<lambda>j. strip (m_group content (ms ! j) 1) = k \<longrightarrow>
                 anchor_text content (ms ! j) (drop (Suc j) ms) = []"
  have split: "(\<forall>j<length (m # ms). strip (m_group content ((m # ms) ! j) 1) = k \<longrightarrow>
                   anchor_text content ((m # ms) ! j) (drop (Suc j) (m # ms)) = [])
               = ((strip (m_group content m 1) = k \<longrightarrow> anchor_text content m ms = [])
                  \<and> (\<forall>j<length ms. ?P j))"
    by (simp add: All_less_Suc2)
  show ?case
  proof (cases "stored_citation content doc k ms")
    case None
    with Cons.IH have "\<forall>j<length ms. ?P j" by simp
    with None show ?thesis unfolding split by simp
  next
    case (Some c)
    with Cons.IH have "\<not> (\<forall>j<length ms. ?P j)" by simp
    with Some show ?thesis unfolding split by simp
  qed
qed

lemma stored_citation_Some:
  "stored_citation content doc k ms = Some c \<Longrightarrow>
   \<exists>i<length ms.
      strip (m_group content (ms ! i) 1) = k
      \<and> anchor_text content (ms ! i) (drop (Suc i) ms) \<noteq> []
      \<and> c = \<lparr>cit_source_id = k, cit_text = anchor_text content (ms ! i) (drop (Suc i) ms),
              cit_document_name = doc,
              cit_section_heading = get_current_heading content (m_start (ms ! i))\<rparr>
      \<and> stored_citation content doc k (drop (Suc i) ms) = None"
proof (induction ms)
  case Nil
  then show ?case by simp
next
  case (Cons m ms)
  show ?case
  proof (cases "stored_citation content doc k ms")
    case None
    with Cons.prems show ?thesis
      by (intro exI [of _ 0]) (auto split: if_splits)
  next
    case (Some c')
    with Cons.prems have "c' = c" by simp
    with Some Cons.IH obtain i where "i < length ms"
      "strip (m_group content (ms ! i) 1) = k"
      "anchor_text content (ms ! i) (drop (Suc i) ms) \<noteq> []"
      "c = \<lparr>cit_source_id = k, cit_text = anchor_text content (ms ! i) (drop (Suc i) ms),
              cit_document_name = doc,
              cit_section_heading = get_current_heading content (m_start (ms ! i))\<rparr>"
      "stored_citation content doc k (drop (Suc i) ms) = None"
      by blast
    then show ?thesis
      by (intro exI [of _ "Suc i"]) simp
  qed
qed

lemma later_anchors:
  assumes none: "stored_citation content doc k (drop (Suc i) ms) = None"
    and "i < j" and "j < length ms" and "strip (m_group content (ms ! j) 1) = k"
  shows "anchor_text content (ms ! j) (drop (Suc j) ms) = []"
proof -
  let ?j = "j - Suc i"
  let ?post = "drop (Suc i) ms"
  from assms(2,3) have j: "Suc i + ?j = j" and lt: "?j < length ?post" by simp_all
  from assms(3) j have nth: "?post ! ?j = ms ! j" by simp
  have dr: "drop (Suc ?j) ?post = drop (Suc j) ms"
    using j by (simp add: add.commute)
  from none have "\<forall>j'<length ?post. strip (m_group content (?post ! j') 1) = k \<longrightarrow>
          anchor_text content (?post ! j') (drop (Suc j') ?post) = []"
    by (simp only: stored_citation_None)
  with lt have "strip (m_group content (?post ! ?j) 1) = k \<longrightarrow>
          anchor_text content (?post ! ?j) (drop (Suc ?j) ?post) = []"
    by blast
  with assms(4) show ?thesis unfolding nth dr by simp
qed

text \<open>
  C6, as the specification states it, fails: in the document
  \<open>"## Sec\<bsol>n### Sub\<bsol>n[SourceID: A]\<bsol>nx"\<close> the anchor \<open>A\<close> starts at position 15, the nearest
  heading of level two before it is \<open>Sec\<close>, and the citation recorded for \<open>A\<close> has the
  section heading \<open>Sub\<close>, the heading of level three.
\<close>

theorem section_heading_not_second_level:
  "parse_citations subheading_document ''d'' =
     [(''A'', \<lparr>cit_source_id = ''A'', cit_text = ''x'',
               cit_document_name = ''d'', cit_section_heading = ''Sub''\<rparr>)]
   \<and> map m_start (finditer SOURCE_ID_PATTERN subheading_document) = [15]
   \<and> spec_section_heading subheading_document 15 = ''Sec''"
  by code_simp

text \<open>
  C6, amended. Every citation recorded from a document was stored for one anchor of the
  document: the anchor carries the source id of the citation, the text extracted for it
  is the text of the citation and is not empty, and no later anchor with the same id has
  a text (the last one wins). The section heading of the citation is the text of the
  nearest heading of any level, one to six, that starts before this anchor,
  \<open>Introduction\<close> when no heading starts before it.
\<close>

theorem citation_section_nearest_heading:
  assumes "(k, c) \<in> set (parse_citations content doc)"
  shows "\<exists>i<length (finditer SOURCE_ID_PATTERN content).
           strip (m_group content (finditer SOURCE_ID_PATTERN content ! i) 1) = k
           \<and> cit_source_id c = k
           \<and> cit_document_name c = doc
           \<and> cit_text c =
               anchor_text content (finditer SOURCE_ID_PATTERN content ! i)
                 (drop (Suc i) (finditer SOURCE_ID_PATTERN content))
           \<and> cit_text c \<noteq> []
           \<and> (\<forall>j. i < j \<longrightarrow> j < length (finditer SOURCE_ID_PATTERN content) \<longrightarrow>
                 strip (m_group content (finditer SOURCE_ID_PATTERN content ! j) 1) = k \<longrightarrow>
                 anchor_text content (finditer SOURCE_ID_PATTERN content ! j)
                   (drop (Suc j) (finditer SOURCE_ID_PATTERN content)) = [])
           \<and> cit_section_heading c =
               nearest_heading content (m_start (finditer SOURCE_ID_PATTERN content ! i))"
proof -
  let ?ms = "finditer SOURCE_ID_PATTERN content"
  have "distinct (map fst (parse_citations content doc))"
    unfolding parse_citations_def by (rule parse_loop_distinct) simp
  with assms have "map_of (parse_citations content doc) k = Some c" by simp
  then have "stored_citation content doc k ?ms = Some c"
    by (simp add: parse_citations_def parse_loop_map_of split: option.splits)
  from stored_citation_Some [OF this] obtain i where i: "i < length ?ms"
    "strip (m_group content (?ms ! i) 1) = k"
    "anchor_text content (?ms ! i) (drop (Suc i) ?ms) \<noteq> []"
    "c = \<lparr>cit_source_id = k, cit_text = anchor_text content (?ms ! i) (drop (Suc i) ?ms),
              cit_document_name = doc,
              cit_section_heading = get_current_heading content (m_start (?ms ! i))\<rparr>"
    "stored_citation content doc k (drop (Suc i) ?ms) = None"
    by blast
  have "\<forall>j. i < j \<longrightarrow> j < length ?ms \<longrightarrow> strip (m_group content (?ms ! j) 1) = k \<longrightarrow>
          anchor_text content (?ms ! j) (drop (Suc j) ?ms) = []"
    using later_anchors [OF i(5)] by blast
  with i show ?thesis
    by (intro exI [of _ i]) (simp add: get_current_heading_nearest)
qed

theorem citation_section_nearest_heading_witness:
  "(''A'', \<lparr>cit_source_id = ''A'', cit_text = ''two'',
            cit_document_name = ''d'', cit_section_heading = ''H''\<rparr>)
     \<in> set (parse_citations repeated_anchor_document ''d'')
   \<and> (\<exists>i<length (finditer SOURCE_ID_PATTERN repeated_anchor_document).
         strip (m_group repeated_anchor_document
                  (finditer SOURCE_ID_PATTERN repeated_anchor_document ! i) 1) = ''A''
         \<and> ''two'' =
             anchor_text repeated_anchor_document
               (finditer SOURCE_ID_PATTERN repeated_anchor_document ! i)
               (drop (Suc i) (finditer SOURCE_ID_PATTERN repeated_anchor_document))
         \<and> ''H'' =
             nearest_heading repeated_anchor_document
               (m_start (finditer SOURCE_ID_PATTERN repeated_anchor_document ! i)))"
proof -
  have h: "(''A'', \<lparr>cit_source_id = ''A'', cit_text = ''two'',
            cit_document_name = ''d'', cit_section_heading = ''H''\<rparr>)
     \<in> set (parse_citations repeated_anchor_document ''d'')"
    by code_simp
  from citation_section_nearest_heading [OF h] h show ?thesis by auto
qed

text \<open>
  In \<open>repeated_anchor_document\<close> the two anchors of \<open>A\<close> have the texts \<open>one\<close> and \<open>two\<close>
  and the nearest headings \<open>Introduction\<close> and \<open>H\<close>. The dictionary holds the citation of
  the second anchor, and a citation with the text of the second anchor under the heading
  of the first does not meet what the amended claim states of a recorded citation.
\<close>

lemma repeated_anchor_told_apart:
  "parse_citations repeated_anchor_document ''d'' =
     [(''A'', \<lparr>cit_source_id = ''A'', cit_text = ''two'',
               cit_document_name = ''d'', cit_section_heading = ''H''\<rparr>)]"
  "length (finditer SOURCE_ID_PATTERN repeated_anchor_document) = 2"
  "\<not> (\<exists>i<length (finditer SOURCE_ID_PATTERN repeated_anchor_document).
         ''two'' =
           anchor_text repeated_anchor_document
             (finditer SOURCE_ID_PATTERN repeated_anchor_document ! i)
             (drop (Suc i) (finditer SOURCE_ID_PATTERN repeated_anchor_document))
         \<and> ''Introduction'' =
             nearest_heading repeated_anchor_document
               (m_start (finditer SOURCE_ID_PATTERN repeated_anchor_document ! i)))"
proof -
  let ?ms = "finditer SOURCE_ID_PATTERN repeated_anchor_document"
  show "parse_citations repeated_anchor_document ''d'' =
     [(''A'', \<lparr>cit_source_id = ''A'', cit_text = ''two'',
               cit_document_name = ''d'', cit_section_heading = ''H''\<rparr>)]"
    by code_simp
  show len: "length ?ms = 2" by code_simp
  have first: "anchor_text repeated_anchor_document (?ms ! 0) (drop (Suc 0) ?ms) = ''one''"
    by code_simp
  have second: "nearest_heading repeated_anchor_document (m_start (?ms ! 1)) = ''H''"
    by code_simp
  show "\<not> (\<exists>i<length ?ms.
         ''two'' = anchor_text repeated_anchor_document (?ms ! i) (drop (Suc i) ?ms)
         \<and> ''Introduction'' = nearest_heading repeated_anchor_document (m_start (?ms ! i)))"
  proof
    assume "\<exists>i<length ?ms.
         ''two'' = anchor_text repeated_anchor_document (?ms ! i) (drop (Suc i) ?ms)
         \<and> ''Introduction'' = nearest_heading repeated_anchor_document (m_start (?ms ! i))"
    then obtain i where i: "i < 2"
      "''two'' = anchor_text repeated_anchor_document (?ms ! i) (drop (Suc i) ?ms)"
      "''Introduction'' = nearest_heading repeated_anchor_document (m_start (?ms ! i))"
      unfolding len by blast
    from i(1) have "i = 0 \<or> i = 1" by auto
    then show False
    proof
      assume "i = 0"
      with i(2) first show False by simp
    next
      assume "i = 1"
      with i(3) second show False by simp
    qed
  qed
qed

text \<open>
  A heading mark that stands alone on its line is outside the amended claim: the
  whitespace of the pattern runs over the line break, and the line below the mark becomes
  the text of the heading. In \<open>"##\<bsol>n[SourceID: A]\<bsol>nx"\<close> the loader takes the line of the
  anchor itself as the section of the anchor.
\<close>

lemma bare_heading_mark_takes_next_line:
  "parse_citations (''##'' @ [NL] @ ''[SourceID: A]'' @ [NL] @ ''x'') ''d'' =
     [(''A'', \<lparr>cit_source_id = ''A'', cit_text = ''x'',
               cit_document_name = ''d'', cit_section_heading = ''[SourceID: A]''\<rparr>)]"
  by code_simp

text \<open>
  C8. Ingesting the scenario document yields exactly two citations, in this order:
  \<open>A.1\<close> with text \<open>Text one.\<close> and \<open>A.2\<close> with text \<open>Text two.\<close>, both with the section
  heading \<open>Introduction\<close>, whatever the name of the document.
\<close>

theorem parse_citations_scenario:
  "parse_citations scenario_document doc =
     [(''A.1'', \<lparr>cit_source_id = ''A.1'', cit_text = ''Text one.'',
                 cit_document_name = doc, cit_section_heading = ''Introduction''\<rparr>),
      (''A.2'', \<lparr>cit_source_id = ''A.2'', cit_text = ''Text two.'',
                 cit_document_name = doc, cit_section_heading = ''Introduction''\<rparr>)]"
  by code_simp

section \<open>Properties of the validator\<close>

text \<open>
  C7. For every output and profile, \<open>validate_output\<close> runs the six checks in the order
  jurisdiction, forbidden patterns, required citations, liability, data protection, clause
  length, and the violation list it returns is the concatenation of the violations of the
  six checks in that order, so every violation of every check is reported; the result is
  valid exactly when all six lists are empty. The only way not to return is the exception
  that \<open>re.search\<close> raises on a forbidden pattern of the profile, which leaves the
  validator from the second check.
\<close>

theorem validate_output_concatenates:
  "validate_output rs out constraints =
     (case check_forbidden_clauses rs out constraints of
        Inl e \<Rightarrow> Inl e
      | Inr forbidden \<Rightarrow>
          Inr \<lparr>is_valid =
                 (check_jurisdiction out constraints = [] \<and> forbidden = []
                  \<and> check_required_citations out constraints = []
                  \<and> check_liability out constraints = []
                  \<and> check_data_protection out constraints = []
                  \<and> check_clause_length out constraints = []),
               violations =
                 check_jurisdiction out constraints @ forbidden
                 @ check_required_citations out constraints
                 @ check_liability out constraints
                 @ check_data_protection out constraints
                 @ check_clause_length out constraints,
               attempt_number = 1\<rparr>)"
  by (simp add: validate_output_def Let_def split: sum.splits)

text \<open>The result of the validator is valid exactly when it has no violation.\<close>

lemma validate_output_is_valid:
  "validate_output rs out constraints = Inr r \<Longrightarrow> is_valid r = (violations r = [])"
  by (auto simp: validate_output_def Let_def split: sum.splits)

text \<open>
  C10. The validator joins the clause texts with a single space before its full-text
  checks. In \<open>split_output\<close> no clause contains the phrase \<open>unlimited liability\<close> (as a
  substring or as a match of the pattern of the check), the joined text does, and under
  a profile that does not allow unlimited liability the validator reports the \<open>CRITICAL\<close>
  violation \<open>liability.unlimited\<close>.
\<close>

theorem liability_phrase_spans_clauses:
  "\<not> allows_unlimited_liability (liability (default_constraints MSA SWEDEN))
   \<and> list_all (\<lambda>clause. \<not> contains (lower (clause_text clause)) ''unlimited liability''
                 \<and> \<not> re_found UNLIMITED_LIABILITY_PATTERN (lower (clause_text clause)))
        (out_clauses split_output)
   \<and> get_full_text split_output =
       ''The Supplier does not accept unlimited'' @ '' ''
         @ ''liability applies as set out in the GDPR breach notification schedule.''
   \<and> validate_output rs split_output (default_constraints MSA SWEDEN) =
       Inr \<lparr>is_valid = False,
            violations =
              [\<lparr>vv_field = ''liability.unlimited'',
                vv_message = ''Output contains '' @ SQ @ ''unlimited liability'' @ SQ
                   @ '' but this is not permitted.'',
                vv_severity = CRITICAL,
                vv_suggestion = ''Replace unlimited liability with a capped liability clause.''\<rparr>],
            attempt_number = 1\<rparr>"
  by code_simp

text \<open>
  The profile and the outputs of the concrete runs are ones the code can receive: the
  liability rule of the default profile passes its validator, and the outputs pass the
  checks of the schema.
\<close>

lemma examples_well_formed:
  "validate_liability_cap (liability (default_constraints t j))
     = Inr (liability (default_constraints t j))"
  "output_schema_ok split_output"
  "output_schema_ok good_output"
  "output_schema_ok wrong_jurisdiction_output"
  by (simp add: validate_liability_cap_def default_constraints_def, code_simp+)

section \<open>Properties of the agent loop\<close>

declare agent_loop.simps [simp del]

text \<open>
  The rule of the loop: a property \<open>I\<close> of the attempt and the state that every pass
  keeps, until a pass leaves the loop or the attempts are used up.
\<close>

lemma agent_loop_rule:
  assumes init: "I a st"
    and body: "\<And>a st. I a st \<Longrightarrow> a \<le> MAX_VALIDATION_RETRIES env \<Longrightarrow>
        (case loop_body env up c sp a st of
           (Raise e, st') \<Rightarrow> Q (Inl e, ls_world st')
         | (Return r, st') \<Rightarrow> Q (Inr r, ls_world st')
         | (Continue, st') \<Rightarrow> I (a + 1) st')"
    and exit: "\<And>a st. I a st \<Longrightarrow> MAX_VALIDATION_RETRIES env < a \<Longrightarrow>
        Q (Inr (exhausted env st), ls_world st)"
  shows "Q (agent_loop env up c sp a st)"
  using assms
proof (induction env up c sp a st rule: agent_loop.induct)
  case (1 env up c sp a st)
  show ?case
  proof (cases "MAX_VALIDATION_RETRIES env < a")
    case True
    from "1.prems"(3) [OF "1.prems"(1) True] True show ?thesis
      by (simp add: agent_loop.simps [of env up c sp a st])
  next
    case False
    then have le: "a \<le> MAX_VALIDATION_RETRIES env" by simp
    obtain oc st' where lb: "loop_body env up c sp a st = (oc, st')"
      by (cases "loop_body env up c sp a st")
    from "1.prems"(2) [OF "1.prems"(1) le] lb
    have b: "case oc of Raise e \<Rightarrow> Q (Inl e, ls_world st')
                | Return r \<Rightarrow> Q (Inr r, ls_world st')
                | Continue \<Rightarrow> I (a + 1) st'"
      by simp
    show ?thesis
    proof (cases oc)
      case (Raise e)
      with b False lb show ?thesis by (simp add: agent_loop.simps [of env up c sp a st])
    next
      case (Return r)
      with b False lb show ?thesis by (simp add: agent_loop.simps [of env up c sp a st])
    next
      case Continue
      with b have "I (a + 1) st'" by simp
      from "1.IH" [OF False lb [symmetric] _ this "1.prems"(2) "1.prems"(3)] Continue
      have "Q (agent_loop env up c sp (a + 1) st')" by simp
      with False lb Continue show ?thesis by (simp add: agent_loop.simps [of env up c sp a st])
    qed
  qed
qed


text \<open>The four ways through the body of the loop.\<close>

lemma loop_body_gateway_raise:
  "generate_structured_output env (length (llm_calls (ls_world st))) sp (ls_current_prompt st)
     = Inl (OtherError m) \<Longrightarrow>
   loop_body env up c sp a st = (Raise (OtherError m), drafting env sp a st)"
  by (simp add: loop_body_def Let_def)

lemma loop_body_gateway_error:
  "generate_structured_output env (length (llm_calls (ls_world st))) sp (ls_current_prompt st)
     = Inl (ValueError m) \<Longrightarrow>
   loop_body env up c sp a st = on_gateway_error env up a (drafting env sp a st) m"
  by (simp add: loop_body_def Let_def)

lemma loop_body_validator_raise:
  "generate_structured_output env (length (llm_calls (ls_world st))) sp (ls_current_prompt st)
     = Inr out \<Longrightarrow>
   validate_output (re_search env) out c = Inl e \<Longrightarrow>
   loop_body env up c sp a st = (Raise e, drafted env (drafting env sp a st) out)"
  by (simp add: loop_body_def Let_def)

lemma loop_body_validated:
  "generate_structured_output env (length (llm_calls (ls_world st))) sp (ls_current_prompt st)
     = Inr out \<Longrightarrow>
   validate_output (re_search env) out c = Inr v \<Longrightarrow>
   loop_body env up c sp a st =
     on_validation env up a (drafted env (drafting env sp a st) out) out
       (v\<lparr>attempt_number := a\<rparr>)"
  by (simp add: loop_body_def Let_def)

lemma loop_body_cases [case_names gateway_raise gateway_error validator_raise validated]:
  assumes "\<And>m. generate_structured_output env (length (llm_calls (ls_world st))) sp
                  (ls_current_prompt st) = Inl (OtherError m) \<Longrightarrow>
               loop_body env up c sp a st = (Raise (OtherError m), drafting env sp a st) \<Longrightarrow> P"
    and "\<And>m. generate_structured_output env (length (llm_calls (ls_world st))) sp
                  (ls_current_prompt st) = Inl (ValueError m) \<Longrightarrow>
               loop_body env up c sp a st = on_gateway_error env up a (drafting env sp a st) m \<Longrightarrow> P"
    and "\<And>out e. generate_structured_output env (length (llm_calls (ls_world st))) sp
                  (ls_current_prompt st) = Inr out \<Longrightarrow>
               validate_output (re_search env) out c = Inl e \<Longrightarrow>
               loop_body env up c sp a st = (Raise e, drafted env (drafting env sp a st) out) \<Longrightarrow> P"
    and "\<And>out v. generate_structured_output env (length (llm_calls (ls_world st))) sp
                  (ls_current_prompt st) = Inr out \<Longrightarrow>
               validate_output (re_search env) out c = Inr v \<Longrightarrow>
               loop_body env up c sp a st =
                 on_validation env up a (drafted env (drafting env sp a st) out) out
                   (v\<lparr>attempt_number := a\<rparr>) \<Longrightarrow> P"
  shows P
proof (cases "generate_structured_output env (length (llm_calls (ls_world st))) sp
                (ls_current_prompt st)")
  case (Inl e)
  then show ?thesis
    using assms(1) assms(2) loop_body_gateway_raise loop_body_gateway_error
    by (cases e) blast+
next
  case (Inr out)
  then show ?thesis
    using assms(3) assms(4) loop_body_validator_raise loop_body_validated
    by (cases "validate_output (re_search env) out c") blast+
qed


lemma emit_length [simp]: "length (emit env evs s m d) = Suc (length evs)"
  by (simp add: emit_def)

subsection \<open>A successful run\<close>

lemma on_gateway_error_return:
  "on_gateway_error env up a st m = (Return r, st') \<Longrightarrow>
   \<not> success r \<and> res_output r = None \<and> validation r = no_validation"
  by (auto simp: on_gateway_error_def Let_def split: if_splits)

lemma on_validation_return:
  "on_validation env up a st out v = (Return r, st') \<Longrightarrow>
   success r \<and> res_output r = Some out \<and> validation r = v \<and> is_valid v \<and> total_attempts r = a"
  by (auto simp: on_validation_def Let_def split: if_splits)

lemma agent_loop_success:
  assumes "agent_loop env up c sp a st = (Inr r, w')" and "success r"
  shows "res_output r \<noteq> None \<and> is_valid (validation r)
         \<and> attempt_number (validation r) = total_attempts r"
proof -
  let ?Q = "\<lambda>x. \<forall>r. fst x = Inr r \<longrightarrow> success r \<longrightarrow>
      res_output r \<noteq> None \<and> is_valid (validation r)
      \<and> attempt_number (validation r) = total_attempts r"
  have "?Q (agent_loop env up c sp a st)"
  proof (rule agent_loop_rule [where I = "\<lambda>a st. True" and Q = ?Q])
    show True ..
  next
    fix a st
    show "case loop_body env up c sp a st of
            (Raise e, st') \<Rightarrow> ?Q (Inl e, ls_world st')
          | (Return r, st') \<Rightarrow> ?Q (Inr r, ls_world st')
          | (Continue, st') \<Rightarrow> True"
    proof (cases rule: loop_body_cases [of env st sp up c a])
      case (gateway_raise m)
      then show ?thesis by simp
    next
      case (gateway_error m)
      then show ?thesis
        by (auto split: prod.splits outcome.splits dest: on_gateway_error_return)
    next
      case (validator_raise out e)
      then show ?thesis by simp
    next
      case (validated out v)
      then show ?thesis
        by (auto split: prod.splits outcome.splits dest!: on_validation_return)
    qed
  next
    fix a st
    show "?Q (Inr (exhausted env st), ls_world st)" by (simp add: exhausted_def)
  qed
  with assms show ?thesis by simp
qed

lemma run_agent_sync_success:
  assumes "run_agent_sync env up c w = (Inr r, w')" and "success r"
  shows "res_output r \<noteq> None \<and> is_valid (validation r)
         \<and> attempt_number (validation r) = total_attempts r"
proof (cases "fst (get_relevant_context env c w)")
  case (Inl e)
  with assms show ?thesis
    by (auto simp: run_agent_sync_def Let_def split: prod.splits sum.splits)
next
  case (Inr source_context)
  with assms obtain sp st where "agent_loop env up c sp 1 st = (Inr r, w')"
    by (auto simp: run_agent_sync_def Let_def split: prod.splits sum.splits)
  from agent_loop_success [OF this assms(2)] show ?thesis .
qed

text \<open>
  C9. For every run of \<open>run_agent_sync\<close> that returns with \<open>success\<close> true, the output of
  the result is present, its validation result is valid, and the attempt number of the
  validation result is the number of attempts of the result.
\<close>

theorem success_has_valid_output:
  assumes "run_agent_sync env up c w = (Inr r, w')" and "success r"
  shows "res_output r \<noteq> None \<and> is_valid (validation r)
         \<and> attempt_number (validation r) = total_attempts r"
  using run_agent_sync_success [OF assms] .

theorem success_has_valid_output_witness:
  "\<exists>r w'. run_agent_sync base_env ''Draft a liability clause'' msa_sweden world0 = (Inr r, w')
     \<and> success r \<and> res_output r \<noteq> None \<and> is_valid (validation r)
     \<and> attempt_number (validation r) = total_attempts r"
proof -
  have "map_sum id success
          (fst (run_agent_sync base_env ''Draft a liability clause'' msa_sweden world0)) = Inr True"
    by code_simp
  then obtain r w' where
    run: "run_agent_sync base_env ''Draft a liability clause'' msa_sweden world0 = (Inr r, w')"
    and ok: "success r"
    by (cases "run_agent_sync base_env ''Draft a liability clause'' msa_sweden world0";
        cases "fst (run_agent_sync base_env ''Draft a liability clause'' msa_sweden world0)")
       auto
  from success_has_valid_output [OF run ok] run ok show ?thesis by blast
qed

subsection \<open>A failed retrieval\<close>

text \<open>
  C5. If the read of the document store fails, \<open>run_agent_sync\<close> returns at once: the
  trace is \<open>INITIALIZING\<close>, \<open>RETRIEVING\<close>, \<open>ERROR\<close>, the result has no output, zero
  attempts and \<open>success\<close> false, and it carries the text of the exception. The record of
  the calls shows one read of the store, which is not tried again, and no call of the
  gateway.
\<close>

theorem retrieval_failure_ends_run:
  assumes "get_all_chunks env (retrievals w) = Inl e"
  shows "run_agent_sync env up c w =
           (Inr \<lparr>res_output = None,
                 validation = \<lparr>is_valid = False, violations = [], attempt_number = 1\<rparr>,
                 events =
                   [\<lparr>ev_state = INITIALIZING, ev_message = ''Starting legal analysis agent...'',
                     ev_data = None, ev_timestamp = time_time env 0\<rparr>,
                    \<lparr>ev_state = RETRIEVING,
                     ev_message = ''Retrieving relevant source documents...'',
                     ev_data = None, ev_timestamp = time_time env 1\<rparr>,
                    \<lparr>ev_state = ERROR,
                     ev_message = ''Failed to retrieve context: '' @ exc_str e,
                     ev_data = None, ev_timestamp = time_time env 2\<rparr>],
                 total_attempts = 0, success = False, error_message = Some (exc_str e)\<rparr>,
            \<lparr>llm_calls = llm_calls w, retrievals = Suc (retrievals w)\<rparr>)"
  using assms
  by (simp add: run_agent_sync_def get_relevant_context_def emit_def no_validation_def Let_def
        numeral_2_eq_2)

theorem retrieval_failure_ends_run_witness:
  "get_all_chunks env_no_store (retrievals world0)
     = Inl (OtherError ''Source documents directory not found: data/source_documents'')
   \<and> run_agent_sync env_no_store ''Draft a liability clause'' msa_sweden world0 =
       (Inr \<lparr>res_output = None,
             validation = \<lparr>is_valid = False, violations = [], attempt_number = 1\<rparr>,
             events =
               [\<lparr>ev_state = INITIALIZING, ev_message = ''Starting legal analysis agent...'',
                 ev_data = None, ev_timestamp = 0\<rparr>,
                \<lparr>ev_state = RETRIEVING,
                 ev_message = ''Retrieving relevant source documents...'',
                 ev_data = None, ev_timestamp = 1\<rparr>,
                \<lparr>ev_state = ERROR,
                 ev_message = ''Failed to retrieve context: ''
                    @ ''Source documents directory not found: data/source_documents'',
                 ev_data = None, ev_timestamp = 2\<rparr>],
             total_attempts = 0, success = False,
             error_message = Some ''Source documents directory not found: data/source_documents''\<rparr>,
        \<lparr>llm_calls = [], retrievals = 1\<rparr>)"
proof -
  have h: "get_all_chunks env_no_store (retrievals world0)
     = Inl (OtherError ''Source documents directory not found: data/source_documents'')"
    by (simp add: env_no_store_def base_env_def)
  from retrieval_failure_ends_run [OF h, of "''Draft a liability clause''" msa_sweden] h
  show ?thesis
    by (simp add: env_no_store_def base_env_def world0_def)
qed

subsection \<open>What the passes keep of the state\<close>

lemma drafting_fields [simp]:
  "ls_last_output (drafting env sp a st) = ls_last_output st"
  "ls_last_validation (drafting env sp a st) = ls_last_validation st"
  "ls_current_prompt (drafting env sp a st) = ls_current_prompt st"
  "llm_calls (ls_world (drafting env sp a st)) = llm_calls (ls_world st) @ [(sp, ls_current_prompt st)]"
  "retrievals (ls_world (drafting env sp a st)) = retrievals (ls_world st)"
  by (simp_all add: drafting_def)

lemma drafted_fields [simp]:
  "ls_last_output (drafted env st out) = Some out"
  "ls_last_validation (drafted env st out) = ls_last_validation st"
  "ls_current_prompt (drafted env st out) = ls_current_prompt st"
  "ls_world (drafted env st out) = ls_world st"
  by (simp_all add: drafted_def)

lemma on_gateway_error_continue:
  "on_gateway_error env up a st m = (Continue, st') \<Longrightarrow>
   a < MAX_VALIDATION_RETRIES env \<and> ls_last_output st' = ls_last_output st
   \<and> ls_last_validation st' = ls_last_validation st \<and> ls_world st' = ls_world st"
  by (auto simp: on_gateway_error_def Let_def split: if_splits)

lemma on_gateway_error_no_raise:
  "on_gateway_error env up a st m \<noteq> (Raise e, st')"
  by (auto simp: on_gateway_error_def Let_def split: if_splits)

lemma on_validation_continue:
  "on_validation env up a st out v = (Continue, st') \<Longrightarrow>
   \<not> is_valid v \<and> ls_last_output st' = ls_last_output st
   \<and> ls_last_validation st' = Some v \<and> ls_world st' = ls_world st"
  by (auto simp: on_validation_def Let_def split: if_splits)

lemma on_validation_no_raise:
  "on_validation env up a st out v \<noteq> (Raise e, st')"
  by (auto simp: on_validation_def Let_def split: if_splits)

lemma on_validation_invalid:
  "\<not> is_valid v \<Longrightarrow> \<exists>st'. on_validation env up a st out v = (Continue, st')"
  by (simp add: on_validation_def Let_def)

subsection \<open>The validation result of a run\<close>

lemma agent_loop_validation:
  assumes "agent_loop env up c sp a st = (Inr r, w')"
    and "\<forall>v. ls_last_validation st = Some v \<longrightarrow> is_valid v = (violations v = [])"
    and "ls_last_validation st = None \<longrightarrow> ls_last_output st = None"
  shows "is_valid (validation r) = (violations (validation r) = [])
         \<or> (validation r = no_validation \<and> res_output r = None \<and> success r = False)"
proof -
  let ?I = "\<lambda>(a::int) (st::loop_state). (\<forall>v. ls_last_validation st = Some v \<longrightarrow> is_valid v = (violations v = []))
                 \<and> (ls_last_validation st = None \<longrightarrow> ls_last_output st = None)"
  let ?Q = "\<lambda>x. \<forall>r. fst x = Inr r \<longrightarrow>
      (is_valid (validation r) = (violations (validation r) = [])
       \<or> (validation r = no_validation \<and> res_output r = None \<and> success r = False))"
  have "?Q (agent_loop env up c sp a st)"
  proof (rule agent_loop_rule [where I = ?I and Q = ?Q])
    show "?I a st" using assms(2,3) by simp
  next
    fix a st
    assume inv: "?I a st"
    show "case loop_body env up c sp a st of
            (Raise e, st') \<Rightarrow> ?Q (Inl e, ls_world st')
          | (Return r, st') \<Rightarrow> ?Q (Inr r, ls_world st')
          | (Continue, st') \<Rightarrow> ?I (a + 1) st'"
    proof (cases rule: loop_body_cases [of env st sp up c a])
      case (gateway_raise m)
      then show ?thesis by simp
    next
      case (gateway_error m)
      obtain oc st' where o: "on_gateway_error env up a (drafting env sp a st) m = (oc, st')"
        by (cases "on_gateway_error env up a (drafting env sp a st) m")
      show ?thesis
      proof (cases oc)
        case (Raise e)
        with o on_gateway_error_no_raise show ?thesis by blast
      next
        case (Return r)
        with o on_gateway_error_return [of env up a _ m r st'] gateway_error(2)
        show ?thesis by simp
      next
        case Continue
        with o on_gateway_error_continue [of env up a _ m st'] gateway_error(2) inv
        show ?thesis by simp
      qed
    next
      case (validator_raise out e)
      then show ?thesis by simp
    next
      case (validated out v)
      let ?v = "v\<lparr>attempt_number := a\<rparr>"
      from validate_output_is_valid [OF validated(2)]
      have iv: "is_valid ?v = (violations ?v = [])" by simp
      obtain oc st' where
        o: "on_validation env up a (drafted env (drafting env sp a st) out) out ?v = (oc, st')"
        by (cases "on_validation env up a (drafted env (drafting env sp a st) out) out ?v")
      show ?thesis
      proof (cases oc)
        case (Raise e)
        with o on_validation_no_raise show ?thesis by blast
      next
        case (Return r)
        with o on_validation_return [of env up a _ out ?v r st'] validated(3) iv
        show ?thesis by simp
      next
        case Continue
        with o on_validation_continue [of env up a _ out ?v st'] validated(3) iv
        show ?thesis by simp
      qed
    qed
  next
    fix a st
    assume "?I a st"
    then show "?Q (Inr (exhausted env st), ls_world st)"
      by (auto simp: exhausted_def split: option.splits)
  qed
  with assms(1) show ?thesis by simp
qed

lemma run_agent_sync_validation:
  assumes "run_agent_sync env up c w = (Inr r, w')"
  shows "is_valid (validation r) = (violations (validation r) = [])
         \<or> (validation r = no_validation \<and> res_output r = None \<and> success r = False)"
proof (cases "fst (get_relevant_context env c w)")
  case (Inl e)
  with assms show ?thesis
    by (auto simp: run_agent_sync_def Let_def split: prod.splits sum.splits)
next
  case (Inr source_context)
  with assms obtain sp st where
    "agent_loop env up c sp 1 st = (Inr r, w')"
    "ls_last_validation st = None" "ls_last_output st = None"
    by (auto simp: run_agent_sync_def Let_def split: prod.splits sum.splits)
  from agent_loop_validation [OF this(1)] this(2,3) show ?thesis by simp
qed

text \<open>
  C1, as the specification states it, fails: when the document store cannot be read, the
  result of \<open>run_agent_sync\<close> carries a validation result that is not valid and has no
  violation.
\<close>

theorem failed_run_invalid_without_violations:
  "map_sum id (is_valid \<circ> validation)
     (fst (run_agent_sync env_no_store ''Draft a liability clause'' msa_sweden world0)) = Inr False
   \<and> map_sum id (violations \<circ> validation)
     (fst (run_agent_sync env_no_store ''Draft a liability clause'' msa_sweden world0)) = Inr []"
  by code_simp

text \<open>
  C1, amended. Every validation result that \<open>validate_output\<close> returns is valid exactly
  when its violation list is empty. The validation result that the result of a run
  carries either satisfies the same equivalence, or it is the placeholder
  \<open>ValidationResult(is_valid=False, violations=[])\<close> of a failed run that has no output.
\<close>

theorem is_valid_iff_no_violations:
  assumes "validate_output rs out c = Inr v"
    and "run_agent_sync env up c' w = (Inr r, w')"
  shows "is_valid v = (violations v = [])
         \<and> (is_valid (validation r) = (violations (validation r) = [])
            \<or> (validation r = no_validation \<and> res_output r = None \<and> success r = False))"
  using validate_output_is_valid [OF assms(1)] run_agent_sync_validation [OF assms(2)] by simp

theorem is_valid_iff_no_violations_witness:
  "\<exists>v r w'.
     validate_output (re_search base_env) wrong_jurisdiction_output msa_sweden = Inr v
     \<and> run_agent_sync base_env ''Draft a liability clause'' msa_sweden world0 = (Inr r, w')
     \<and> is_valid v = (violations v = [])
     \<and> (is_valid (validation r) = (violations (validation r) = [])
        \<or> (validation r = no_validation \<and> res_output r = None \<and> success r = False))"
proof -
  have "map_sum id (\<lambda>v. True)
          (validate_output (re_search base_env) wrong_jurisdiction_output msa_sweden) = Inr True"
    by code_simp
  then obtain v where
    v: "validate_output (re_search base_env) wrong_jurisdiction_output msa_sweden = Inr v"
    by (cases "validate_output (re_search base_env) wrong_jurisdiction_output msa_sweden") auto
  have "map_sum id (\<lambda>r. True)
          (fst (run_agent_sync base_env ''Draft a liability clause'' msa_sweden world0))
        = Inr True"
    by code_simp
  then obtain r w' where
    r: "run_agent_sync base_env ''Draft a liability clause'' msa_sweden world0 = (Inr r, w')"
    by (cases "run_agent_sync base_env ''Draft a liability clause'' msa_sweden world0";
        cases "fst (run_agent_sync base_env ''Draft a liability clause'' msa_sweden world0)")
       auto
  from is_valid_iff_no_violations [OF v r] v r show ?thesis by blast
qed

subsection \<open>An error of the gateway\<close>

text \<open>
  The gateway reports a response that is not JSON, or that does not fit the schema, as a
  \<open>ValueError\<close> with the message of the parser or of the schema check. An exception of the
  model, or another exception of the parser, passes through the gateway; when it is a
  \<open>ValueError\<close> the loop handles it in the same way.
\<close>

lemma gateway_reports_malformed:
  "generate_completion env k sp up = Inr raw \<Longrightarrow>
   json_loads env raw = Inl (JSONDecodeError e) \<Longrightarrow>
   generate_structured_output env k sp up = Inl (ValueError (''LLM returned invalid JSON: '' @ e))"
  by (simp add: generate_structured_output_def)

lemma gateway_passes_on:
  "generate_completion env k sp up = Inl x \<Longrightarrow> generate_structured_output env k sp up = Inl x"
  "generate_completion env k sp up = Inr raw \<Longrightarrow> json_loads env raw = Inl (LoadsRaised x) \<Longrightarrow>
   generate_structured_output env k sp up = Inl x"
  by (simp_all add: generate_structured_output_def)

lemma gateway_reports_schema_invalid:
  "generate_completion env k sp up = Inr raw \<Longrightarrow> json_loads env raw = Inr data \<Longrightarrow>
   model_validate env data = Inl e \<Longrightarrow>
   generate_structured_output env k sp up
     = Inl (ValueError (''LLM output failed schema validation: '' @ e))"
  by (simp add: generate_structured_output_def)

text \<open>
  C4. On an attempt of the loop for which the gateway reports a malformed or
  schema-invalid response with the message \<open>m\<close>, the loop emits an \<open>ERROR\<close> event after the
  \<open>DRAFTING\<close> event of the attempt. If attempts remain, the prompt becomes the user prompt
  followed by a short failure note and the loop goes on with the next attempt; on the
  final attempt the run returns a failed result with no output whose error message is \<open>m\<close>.
\<close>

theorem gateway_error_retry_or_fail:
  assumes "attempt \<le> MAX_VALIDATION_RETRIES env"
    and "generate_structured_output env (length (llm_calls (ls_world st))) sp
           (ls_current_prompt st) = Inl (ValueError m)"
  shows "agent_loop env up c sp attempt st =
           (let st1 = drafting env sp attempt st;
                evs = emit env (ls_events st1) ERROR (''LLM output error: '' @ m) None
            in if attempt < MAX_VALIDATION_RETRIES env
               then agent_loop env up c sp (attempt + 1)
                      (st1\<lparr>ls_events := evs,
                          ls_current_prompt :=
                            up @ [NL, NL] @ ''PREVIOUS ATTEMPT FAILED: '' @ m @ [NL]
                              @ ''Please fix and try again.''\<rparr>)
               else (Inr \<lparr>res_output = None,
                          validation = \<lparr>is_valid = False, violations = [], attempt_number = 1\<rparr>,
                          events = evs, total_attempts = attempt, success = False,
                          error_message = Some m\<rparr>,
                     ls_world st1))"
proof -
  from assms(1) have "\<not> MAX_VALIDATION_RETRIES env < attempt" by simp
  then show ?thesis
    by (simp add: agent_loop.simps [of env up c sp attempt st]
          loop_body_gateway_error [OF assms(2)] on_gateway_error_def no_validation_def Let_def)
qed


theorem gateway_error_retry_or_fail_witness:
  "(3::int) \<le> MAX_VALIDATION_RETRIES env_bad_json
   \<and> generate_structured_output env_bad_json 0 ''system'' ''Draft a liability clause''
       = Inl (ValueError (''LLM returned invalid JSON: '' @ ''Expecting value: line 1 column 1 (char 0)''))
   \<and> agent_loop env_bad_json ''Draft a liability clause'' msa_sweden ''system'' 3
       \<lparr>ls_events = [], ls_current_prompt = ''Draft a liability clause'',
        ls_last_output = None, ls_last_validation = None, ls_world = world0\<rparr>
     = (Inr \<lparr>res_output = None,
             validation = \<lparr>is_valid = False, violations = [], attempt_number = 1\<rparr>,
             events =
               [\<lparr>ev_state = DRAFTING, ev_message = ''Generating draft (attempt 3/3)...'',
                 ev_data = Some [(''attempt'', PInt 3)], ev_timestamp = 0\<rparr>,
                \<lparr>ev_state = ERROR,
                 ev_message = ''LLM output error: '' @ ''LLM returned invalid JSON: ''
                    @ ''Expecting value: line 1 column 1 (char 0)'',
                 ev_data = None, ev_timestamp = 1\<rparr>],
             total_attempts = 3, success = False,
             error_message = Some (''LLM returned invalid JSON: ''
                                     @ ''Expecting value: line 1 column 1 (char 0)'')\<rparr>,
        \<lparr>llm_calls = [(''system'', ''Draft a liability clause'')], retrievals = 0\<rparr>)"
proof -
  let ?st = "\<lparr>ls_events = [], ls_current_prompt = ''Draft a liability clause'',
        ls_last_output = None, ls_last_validation = None, ls_world = world0\<rparr>"
  have h1: "(3::int) \<le> MAX_VALIDATION_RETRIES env_bad_json"
    by (simp add: env_bad_json_def base_env_def)
  have h2: "generate_structured_output env_bad_json (length (llm_calls (ls_world ?st))) ''system''
              (ls_current_prompt ?st)
            = Inl (ValueError (''LLM returned invalid JSON: ''
                                 @ ''Expecting value: line 1 column 1 (char 0)''))"
    by (simp add: generate_structured_output_def env_bad_json_def base_env_def world0_def)
  have s3: "str_int 3 = ''3''" by code_simp
  from gateway_error_retry_or_fail [OF h1 h2, of "''Draft a liability clause''" msa_sweden] h1 h2
  show ?thesis
    by (simp add: Let_def drafting_def emit_def env_bad_json_def base_env_def world0_def s3)
qed

subsection \<open>A gateway whose outputs never pass the validation\<close>

text \<open>
  With such a gateway every pass through the body goes on to the next attempt, and the
  state holds the output and the validation result of the attempt just made.
\<close>

lemma agent_loop_always_violating:
  fixes n0 :: nat
  assumes budget: "1 \<le> MAX_VALIDATION_RETRIES env"
    and gw: "\<And>k sp' up'. \<exists>out v. generate_structured_output env k sp' up' = Inr out
               \<and> validate_output (re_search env) out c = Inr v \<and> violations v \<noteq> []"
    and st0: "length (llm_calls (ls_world st0)) = n0"
  shows "\<exists>r w' out v upk.
           agent_loop env up c sp 1 st0 = (Inr r, w')
           \<and> success r = False
           \<and> total_attempts r = MAX_VALIDATION_RETRIES env
           \<and> res_output r = Some out
           \<and> validation r = v\<lparr>attempt_number := MAX_VALIDATION_RETRIES env\<rparr>
           \<and> violations (validation r) \<noteq> []
           \<and> validate_output (re_search env) out c = Inr v
           \<and> generate_structured_output env (n0 + nat (MAX_VALIDATION_RETRIES env) - 1) sp upk
               = Inr out
           \<and> last (llm_calls w') = (sp, upk)
           \<and> length (llm_calls w') = n0 + nat (MAX_VALIDATION_RETRIES env)
           \<and> retrievals w' = retrievals (ls_world st0)"
proof -
  let ?M = "MAX_VALIDATION_RETRIES env"
  let ?I = "\<lambda>(a::int) (st::loop_state).
      1 \<le> a \<and> a \<le> ?M + 1
      \<and> length (llm_calls (ls_world st)) = n0 + nat (a - 1)
      \<and> retrievals (ls_world st) = retrievals (ls_world st0)
      \<and> (1 < a \<longrightarrow>
           (\<exists>out v upk.
              ls_last_output st = Some out
              \<and> ls_last_validation st = Some (v\<lparr>attempt_number := a - 1\<rparr>)
              \<and> violations v \<noteq> []
              \<and> validate_output (re_search env) out c = Inr v
              \<and> generate_structured_output env (n0 + nat (a - 1) - 1) sp upk = Inr out
              \<and> last (llm_calls (ls_world st)) = (sp, upk)))"
  let ?Q = "\<lambda>x. \<exists>r w' out v upk.
           x = (Inr r, w')
           \<and> success r = False
           \<and> total_attempts r = ?M
           \<and> res_output r = Some out
           \<and> validation r = v\<lparr>attempt_number := ?M\<rparr>
           \<and> violations (validation r) \<noteq> []
           \<and> validate_output (re_search env) out c = Inr v
           \<and> generate_structured_output env (n0 + nat ?M - 1) sp upk = Inr out
           \<and> last (llm_calls w') = (sp, upk)
           \<and> length (llm_calls w') = n0 + nat ?M
           \<and> retrievals w' = retrievals (ls_world st0)"
  show ?thesis
  proof (rule agent_loop_rule [where I = ?I and Q = ?Q])
    show "?I 1 st0" using budget st0 by simp
  next
    fix a st
    assume inv: "?I a st" and le: "a \<le> ?M"
    let ?k = "length (llm_calls (ls_world st))"
    from gw [of ?k sp "ls_current_prompt st"] obtain out v where
      g: "generate_structured_output env ?k sp (ls_current_prompt st) = Inr out"
      and val: "validate_output (re_search env) out c = Inr v"
      and nonempty: "violations v \<noteq> []"
      by blast
    let ?v = "v\<lparr>attempt_number := a\<rparr>"
    let ?st2 = "drafted env (drafting env sp a st) out"
    from validate_output_is_valid [OF val] nonempty have "\<not> is_valid ?v" by simp
    from on_validation_invalid [OF this, of env up a ?st2 out] obtain st' where
      ov: "on_validation env up a ?st2 out ?v = (Continue, st')"
      by blast
    from on_validation_continue [OF ov]
    have st': "ls_last_output st' = Some out" "ls_last_validation st' = Some ?v"
      "ls_world st' = ls_world (drafting env sp a st)"
      by simp_all
    have lb: "loop_body env up c sp a st = (Continue, st')"
      using loop_body_validated [OF g val, of up a] ov by simp
    from inv have k: "?k = n0 + nat (a - 1)" and a1: "1 \<le> a" by simp_all
    from a1 have nat_eq: "nat (a + 1 - 1) = Suc (nat (a - 1))" by simp
    have "?I (a + 1) st'"
      using inv le st' g val nonempty k nat_eq by (auto simp: nat_eq)
    with lb show "case loop_body env up c sp a st of
            (Raise e, st') \<Rightarrow> ?Q (Inl e, ls_world st')
          | (Return r, st') \<Rightarrow> ?Q (Inr r, ls_world st')
          | (Continue, st') \<Rightarrow> ?I (a + 1) st'"
      by simp
  next
    fix a st
    assume inv: "?I a st" and gt: "?M < a"
    with budget have a: "a = ?M + 1" "1 < a" by simp_all
    with inv obtain out v upk where
      "ls_last_output st = Some out"
      "ls_last_validation st = Some (v\<lparr>attempt_number := ?M\<rparr>)"
      "violations v \<noteq> []"
      "validate_output (re_search env) out c = Inr v"
      "generate_structured_output env (n0 + nat ?M - 1) sp upk = Inr out"
      "last (llm_calls (ls_world st)) = (sp, upk)"
      by auto
    moreover from inv a have "length (llm_calls (ls_world st)) = n0 + nat ?M"
      "retrievals (ls_world st) = retrievals (ls_world st0)" by simp_all
    ultimately show "?Q (Inr (exhausted env st), ls_world st)"
      by (simp add: exhausted_def)
  qed
qed

text \<open>
  C2. Let the retry budget be at least one, as the settings of the specification
  require, and let the context be retrieved. If on each attempt the gateway returns an
  output that fits the schema and fails the validation, then \<open>run_agent_sync\<close> returns a
  result with \<open>success\<close> false and as many attempts as the budget; the result carries the
  output of the last call of the gateway and its validation result, stamped with the
  number of the last attempt, whose violation list is not empty. The gateway was called
  once for each attempt.
\<close>

theorem always_violating_exhausts_budget:
  assumes "1 \<le> MAX_VALIDATION_RETRIES env"
    and "get_all_chunks env (retrievals w) = Inr chunks"
    and "\<And>k sp up'. \<exists>out v. generate_structured_output env k sp up' = Inr out
               \<and> validate_output (re_search env) out c = Inr v \<and> violations v \<noteq> []"
  shows "\<exists>r w' out v sp upk.
           run_agent_sync env up c w = (Inr r, w')
           \<and> success r = False
           \<and> total_attempts r = MAX_VALIDATION_RETRIES env
           \<and> res_output r = Some out
           \<and> validation r = v\<lparr>attempt_number := MAX_VALIDATION_RETRIES env\<rparr>
           \<and> violations (validation r) \<noteq> []
           \<and> validate_output (re_search env) out c = Inr v
           \<and> generate_structured_output env
                (length (llm_calls w) + nat (MAX_VALIDATION_RETRIES env) - 1) sp upk = Inr out
           \<and> last (llm_calls w') = (sp, upk)
           \<and> length (llm_calls w') = length (llm_calls w) + nat (MAX_VALIDATION_RETRIES env)"
proof -
  let ?sp = "build_system_prompt env c (relevant_context c chunks)"
  let ?st0 = "\<lparr>ls_events =
                  emit env
                    (emit env (emit env [] INITIALIZING ''Starting legal analysis agent...'' None)
                       RETRIEVING ''Retrieving relevant source documents...'' None)
                    RETRIEVING (''Retrieved context for '' @ contract_type_value (contract_type c))
                    (Some [(''context_length'', PInt (int (length (relevant_context c chunks))))]),
                ls_current_prompt = up, ls_last_output = None, ls_last_validation = None,
                ls_world = w\<lparr>retrievals := Suc (retrievals w)\<rparr>\<rparr>"
  have run: "run_agent_sync env up c w = agent_loop env up c ?sp 1 ?st0"
    using assms(2) by (simp add: run_agent_sync_def get_relevant_context_def Let_def)
  have "length (llm_calls (ls_world ?st0)) = length (llm_calls w)" by simp
  from agent_loop_always_violating [OF assms(1) assms(3) this, of up ?sp] run
  show ?thesis by metis
qed

theorem always_violating_exhausts_budget_witness:
  "1 \<le> MAX_VALIDATION_RETRIES env_wrong_jurisdiction
   \<and> get_all_chunks env_wrong_jurisdiction (retrievals world0) = Inr example_chunks
   \<and> (\<forall>k sp up'. \<exists>out v.
         generate_structured_output env_wrong_jurisdiction k sp up' = Inr out
         \<and> validate_output (re_search env_wrong_jurisdiction) out msa_sweden = Inr v
         \<and> violations v \<noteq> [])
   \<and> (\<exists>r w'.
         run_agent_sync env_wrong_jurisdiction ''Draft a liability clause'' msa_sweden world0
           = (Inr r, w')
         \<and> success r = False \<and> total_attempts r = 3
         \<and> res_output r = Some wrong_jurisdiction_output
         \<and> attempt_number (validation r) = 3
         \<and> violations (validation r) \<noteq> []
         \<and> length (llm_calls w') = 3)"
proof -
  have h1: "1 \<le> MAX_VALIDATION_RETRIES env_wrong_jurisdiction"
    by (simp add: env_wrong_jurisdiction_def base_env_def)
  have h2: "get_all_chunks env_wrong_jurisdiction (retrievals world0) = Inr example_chunks"
    by (simp add: env_wrong_jurisdiction_def base_env_def)
  have gen: "generate_structured_output env_wrong_jurisdiction k sp up'
               = Inr wrong_jurisdiction_output" for k sp up'
    by (simp add: generate_structured_output_def env_wrong_jurisdiction_def base_env_def)
  have "map_sum id (\<lambda>v. violations v \<noteq> [])
          (validate_output (re_search env_wrong_jurisdiction) wrong_jurisdiction_output msa_sweden)
        = Inr True"
    by code_simp
  then obtain v where
    v: "validate_output (re_search env_wrong_jurisdiction) wrong_jurisdiction_output msa_sweden
          = Inr v" "violations v \<noteq> []"
    by (cases "validate_output (re_search env_wrong_jurisdiction) wrong_jurisdiction_output
                 msa_sweden") auto
  have h3: "\<exists>out v. generate_structured_output env_wrong_jurisdiction k sp up' = Inr out
              \<and> validate_output (re_search env_wrong_jurisdiction) out msa_sweden = Inr v
              \<and> violations v \<noteq> []" for k sp up'
    using gen v by blast
  have m: "MAX_VALIDATION_RETRIES env_wrong_jurisdiction = 3" "llm_calls world0 = []"
    by (simp_all add: env_wrong_jurisdiction_def base_env_def world0_def)
  from always_violating_exhausts_budget [OF h1 h2 h3, of "''Draft a liability clause''"]
  obtain r w' out v' sp upk where
    res: "run_agent_sync env_wrong_jurisdiction ''Draft a liability clause'' msa_sweden world0
            = (Inr r, w')"
      "success r = False" "total_attempts r = 3" "res_output r = Some out"
      "validation r = v'\<lparr>attempt_number := 3\<rparr>" "violations (validation r) \<noteq> []"
      "generate_structured_output env_wrong_jurisdiction (0 + nat 3 - 1) sp upk = Inr out"
      "length (llm_calls w') = 3"
    unfolding m by auto
  from res(7) gen have "out = wrong_jurisdiction_output" by simp
  with res h1 h2 h3 show ?thesis by auto
qed

subsection \<open>The streaming projection\<close>

lemma errors_bare_emit [simp]:
  "errors_bare (emit env evs s m d) = (errors_bare evs \<and> (s = ERROR \<longrightarrow> d = None))"
  by (auto simp: errors_bare_def emit_def)

lemma errors_bare_Nil [simp]: "errors_bare []"
  by (simp add: errors_bare_def)

lemma on_gateway_error_events:
  "on_gateway_error env up a st m = (oc, st') \<Longrightarrow> errors_bare (ls_events st) \<Longrightarrow>
   errors_bare (ls_events st') \<and> (\<forall>r. oc = Return r \<longrightarrow> errors_bare (events r))"
  by (auto simp: on_gateway_error_def Let_def split: if_splits)

lemma on_validation_events:
  "on_validation env up a st out v = (oc, st') \<Longrightarrow> errors_bare (ls_events st) \<Longrightarrow>
   errors_bare (ls_events st') \<and> (\<forall>r. oc = Return r \<longrightarrow> errors_bare (events r))"
  by (auto simp: on_validation_def Let_def split: if_splits)

lemma drafting_events [simp]:
  "errors_bare (ls_events (drafting env sp a st)) = errors_bare (ls_events st)"
  by (simp add: drafting_def)

lemma drafted_events [simp]:
  "errors_bare (ls_events (drafted env st out)) = errors_bare (ls_events st)"
  by (simp add: drafted_def)

lemma agent_loop_errors_bare:
  assumes "agent_loop env up c sp a st = (Inr r, w')" and "errors_bare (ls_events st)"
  shows "errors_bare (events r)"
proof -
  let ?I = "\<lambda>(a::int) (st::loop_state). errors_bare (ls_events st)"
  let ?Q = "\<lambda>x. \<forall>r. fst x = Inr r \<longrightarrow> errors_bare (events r)"
  have "?Q (agent_loop env up c sp a st)"
  proof (rule agent_loop_rule [where I = ?I and Q = ?Q])
    show "?I a st" by (rule assms(2))
  next
    fix a st
    assume inv: "?I a st"
    show "case loop_body env up c sp a st of
            (Raise e, st') \<Rightarrow> ?Q (Inl e, ls_world st')
          | (Return r, st') \<Rightarrow> ?Q (Inr r, ls_world st')
          | (Continue, st') \<Rightarrow> ?I (a + 1) st'"
    proof (cases rule: loop_body_cases [of env st sp up c a])
      case (gateway_raise m)
      then show ?thesis by simp
    next
      case (gateway_error m)
      obtain oc st' where o: "on_gateway_error env up a (drafting env sp a st) m = (oc, st')"
        by (cases "on_gateway_error env up a (drafting env sp a st) m")
      from on_gateway_error_events [OF o] inv gateway_error(2) o show ?thesis
        by (cases oc) simp_all
    next
      case (validator_raise out e)
      then show ?thesis by simp
    next
      case (validated out v)
      obtain oc st' where
        o: "on_validation env up a (drafted env (drafting env sp a st) out) out
              (v\<lparr>attempt_number := a\<rparr>) = (oc, st')"
        by (cases "on_validation env up a (drafted env (drafting env sp a st) out) out
                     (v\<lparr>attempt_number := a\<rparr>)")
      from on_validation_events [OF o] inv validated(3) o show ?thesis
        by (cases oc) simp_all
    qed
  next
    fix a st
    assume "?I a st"
    then show "?Q (Inr (exhausted env st), ls_world st)" by (simp add: exhausted_def)
  qed
  with assms(1) show ?thesis by simp
qed

lemma run_agent_sync_errors_bare:
  assumes "run_agent_sync env up c w = (Inr r, w')"
  shows "errors_bare (events r)"
proof (cases "fst (get_relevant_context env c w)")
  case (Inl e)
  with assms show ?thesis
    by (auto simp: run_agent_sync_def Let_def split: prod.splits sum.splits)
next
  case (Inr source_context)
  with assms obtain sp st where
    "agent_loop env up c sp 1 st = (Inr r, w')" "errors_bare (ls_events st)"
    by (auto simp: run_agent_sync_def Let_def split: prod.splits sum.splits)
  from agent_loop_errors_bare [OF this] show ?thesis .
qed

text \<open>On such a trace the loop of the generator only replaces messages.\<close>

lemma yield_events_redact:
  "errors_bare evs \<Longrightarrow> yield_events evs = map redact_message evs"
proof (induction evs)
  case Nil
  then show ?case by simp
next
  case (Cons e evs)
  then have "errors_bare evs" and bare: "ev_state e = ERROR \<longrightarrow> ev_data e = None"
    by (simp_all add: errors_bare_def)
  with Cons.IH show ?case
    by (cases e) (simp add: redact_message_def)
qed

text \<open>An exception that leaves the synchronous run leaves the generator before any event.\<close>

lemma run_agent_streaming_raises:
  "run_agent_sync env up c w = (Inl e, w') \<Longrightarrow> run_agent_streaming env up c w = (Inl e, w')"
  by (simp add: run_agent_streaming_def)

text \<open>
  C3. When \<open>run_agent_sync\<close> returns a result, the events that \<open>run_agent_streaming\<close>
  yields for the same prompt and profile are the events of the trace of the result, in
  their order, each event in the state \<open>ERROR\<close> with its message replaced by a generic
  phrase and otherwise unchanged, followed by exactly one final event: on success a
  \<open>COMPLETE\<close> event with the serialized output, the validation result and the number of
  attempts, otherwise an \<open>ERROR\<close> event with the validation result and the number of
  attempts. A successful result has an output, so the final event of a success is always
  the first of the two.
\<close>

theorem streaming_replays_trace:
  assumes "run_agent_sync env up c w = (Inr r, w')"
  shows "run_agent_streaming env up c w =
           (Inr (map redact_message (events r)
                 @ [if success r
                    then \<lparr>ev_state = COMPLETE, ev_message = ''Generation complete'',
                          ev_data = Some [(''output'', output_model_dump (the (res_output r))),
                                          (''validation'', validation_model_dump (validation r)),
                                          (''total_attempts'', PInt (total_attempts r))],
                          ev_timestamp = time_time env (length (events r))\<rparr>
                    else \<lparr>ev_state = ERROR, ev_message = ''Generation could not be completed'',
                          ev_data = Some [(''validation'', validation_model_dump (validation r)),
                                          (''total_attempts'', PInt (total_attempts r))],
                          ev_timestamp = time_time env (length (events r))\<rparr>]),
            w')
         \<and> (success r \<longrightarrow> res_output r \<noteq> None)"
proof -
  have out: "success r \<longrightarrow> res_output r \<noteq> None"
    using run_agent_sync_success [OF assms] by simp
  have "yield_events (events r) = map redact_message (events r)"
    by (rule yield_events_redact [OF run_agent_sync_errors_bare [OF assms]])
  with assms out show ?thesis
    by (auto simp: run_agent_streaming_def final_event_def split: option.splits bool.splits)
qed

theorem streaming_replays_trace_witness:
  "\<exists>r w'.
     run_agent_sync env_no_store ''Draft a liability clause'' msa_sweden world0 = (Inr r, w')
     \<and> map ev_state (events r) = [INITIALIZING, RETRIEVING, ERROR]
     \<and> success r = False
     \<and> run_agent_streaming env_no_store ''Draft a liability clause'' msa_sweden world0 =
         (Inr [\<lparr>ev_state = INITIALIZING, ev_message = ''Starting legal analysis agent...'',
                ev_data = None, ev_timestamp = 0\<rparr>,
               \<lparr>ev_state = RETRIEVING, ev_message = ''Retrieving relevant source documents...'',
                ev_data = None, ev_timestamp = 1\<rparr>,
               \<lparr>ev_state = ERROR, ev_message = ''An error occurred during processing'',
                ev_data = None, ev_timestamp = 2\<rparr>,
               \<lparr>ev_state = ERROR, ev_message = ''Generation could not be completed'',
                ev_data = Some [(''validation'',
                                 PDict [(''is_valid'', PBool False), (''violations'', PList []),
                                        (''attempt_number'', PInt 1)]),
                                (''total_attempts'', PInt 0)],
                ev_timestamp = 3\<rparr>],
          w')"
proof -
  let ?r = "\<lparr>res_output = None,
             validation = \<lparr>is_valid = False, violations = [], attempt_number = 1\<rparr>,
             events =
               [\<lparr>ev_state = INITIALIZING, ev_message = ''Starting legal analysis agent...'',
                 ev_data = None, ev_timestamp = 0\<rparr>,
                \<lparr>ev_state = RETRIEVING,
                 ev_message = ''Retrieving relevant source documents...'',
                 ev_data = None, ev_timestamp = 1\<rparr>,
                \<lparr>ev_state = ERROR,
                 ev_message = ''Failed to retrieve context: ''
                    @ ''Source documents directory not found: data/source_documents'',
                 ev_data = None, ev_timestamp = 2\<rparr>],
             total_attempts = 0, success = False,
             error_message = Some ''Source documents directory not found: data/source_documents''\<rparr>"
  have tt: "time_time env_no_store n = of_nat n" for n
    by (simp add: env_no_store_def base_env_def)
  have run: "run_agent_sync env_no_store ''Draft a liability clause'' msa_sweden world0
               = (Inr ?r, \<lparr>llm_calls = [], retrievals = 1\<rparr>)"
    by (simp add: run_agent_sync_def get_relevant_context_def emit_def no_validation_def Let_def
          env_no_store_def base_env_def world0_def)
  from streaming_replays_trace [OF run] run show ?thesis
    by (simp add: redact_message_def validation_model_dump_def tt)
qed

end
